theory Spec2Isabelle
  imports Main
begin

section \<open>Strings\<close>

text \<open>
  Python strings are modelled as \<open>string\<close> (lists of characters). \<open>str_nat\<close> is the
  decimal rendering that an f-string gives a non-negative integer.
\<close>

definition digit_char :: "nat \<Rightarrow> char" where
  "digit_char d = char_of (48 + d)"

function str_nat :: "nat \<Rightarrow> string" where
  "str_nat n = (if n < 10 then [digit_char n] else str_nat (n div 10) @ [digit_char (n mod 10)])"
  by pat_completeness auto
termination
  by (relation "measure id") auto

declare str_nat.simps [simp del]

definition digit_val :: "char \<Rightarrow> nat" where
  "digit_val c = of_char c - 48"

definition nat_of_str :: "string \<Rightarrow> nat" where
  "nat_of_str ds = foldl (\<lambda>a c. 10 * a + digit_val c) 0 ds"

definition dict_get :: "'a \<Rightarrow> 'a option \<Rightarrow> 'a" where
  \<comment> \<open>\<open>d.get(key, default)\<close> for a field that may be absent\<close>
  "dict_get dflt v = (case v of None \<Rightarrow> dflt | Some x \<Rightarrow> x)"

definition replace_char :: "char \<Rightarrow> char \<Rightarrow> string \<Rightarrow> string" where
  \<comment> \<open>\<open>name.replace(old, new)\<close> for one-character arguments\<close>
  "replace_char old new name = map (\<lambda>x. if x = old then new else x) name"

definition strip :: "string \<Rightarrow> string \<Rightarrow> string" where
  \<comment> \<open>\<open>name.strip(chars)\<close>\<close>
  "strip chars name =
     rev (dropWhile (\<lambda>x. x \<in> set chars) (rev (dropWhile (\<lambda>x. x \<in> set chars) name)))"

fun rfind :: "char \<Rightarrow> string \<Rightarrow> nat option" where
  "rfind c [] = None"
| "rfind c (x # xs) =
     (case rfind c xs of
        Some i \<Rightarrow> Some (Suc i)
      | None \<Rightarrow> (if x = c then Some 0 else None))"

fun split_on :: "char \<Rightarrow> string \<Rightarrow> string list" where
  "split_on c [] = [[]]"
| "split_on c (x # xs) =
     (if x = c then [] # split_on c xs
      else (case split_on c xs of
              [] \<Rightarrow> [[x]]
            | w # ws \<Rightarrow> (x # w) # ws))"

section \<open>Paths\<close>

text \<open>
  A \<open>pathlib\<close> path is modelled by its \<open>parts\<close>: the list of its components, with the
  component \<open>''/''\<close> in front when the path is absolute (POSIX flavour). Parsing a string
  drops empty components and \<open>''.''\<close> components, as \<open>pathlib\<close> does.
\<close>

type_synonym path = "string list"

definition parse_path :: "string \<Rightarrow> path" where
  "parse_path s =
     (if s \<noteq> [] \<and> hd s = CHR ''/'' then [''/''] else []) @
     filter (\<lambda>x. x \<noteq> [] \<and> x \<noteq> ''.'') (split_on CHR ''/'' s)"

definition is_absolute :: "path \<Rightarrow> bool" where
  "is_absolute p = (p \<noteq> [] \<and> hd p = ''/'')"

definition join_path :: "path \<Rightarrow> path \<Rightarrow> path" where
  \<comment> \<open>\<open>p / q\<close> for two paths: an absolute right operand replaces the left one\<close>
  "join_path p q = (if is_absolute q then q else p @ q)"

definition joinpath :: "path \<Rightarrow> string \<Rightarrow> path" where
  \<comment> \<open>\<open>p / s\<close> for a path and a string\<close>
  "joinpath p s = join_path p (parse_path s)"

definition path_name :: "path \<Rightarrow> string" where
  \<comment> \<open>\<open>p.name\<close>: the final component, empty for the root and for the empty path\<close>
  "path_name p = (if p = [] \<or> p = [''/''] then [] else last p)"

definition path_parent :: "path \<Rightarrow> path" where
  \<comment> \<open>\<open>p.parent\<close>\<close>
  "path_parent p = (if p = [] \<or> p = [''/''] then p else butlast p)"

definition name_suffix :: "string \<Rightarrow> string" where
  \<comment> \<open>\<open>suffix\<close> of a final component: from its last dot, unless that dot is first or last\<close>
  "name_suffix name =
     (case rfind CHR ''.'' name of
        None \<Rightarrow> []
      | Some i \<Rightarrow> (if 0 < i \<and> Suc i < length name then drop i name else []))"

definition name_stem :: "string \<Rightarrow> string" where
  "name_stem name =
     (case rfind CHR ''.'' name of
        None \<Rightarrow> name
      | Some i \<Rightarrow> (if 0 < i \<and> Suc i < length name then take i name else name))"

definition stem :: "string \<Rightarrow> string" where
  \<comment> \<open>\<open>Path(s).stem\<close>\<close>
  "stem s = name_stem (path_name (parse_path s))"

definition suffix :: "string \<Rightarrow> string" where
  \<comment> \<open>\<open>Path(s).suffix\<close>\<close>
  "suffix s = name_suffix (path_name (parse_path s))"

fun join_with :: "string \<Rightarrow> string list \<Rightarrow> string" where
  "join_with sep [] = []"
| "join_with sep [x] = x"
| "join_with sep (x # y # ys) = x @ sep @ join_with sep (y # ys)"

definition str_path :: "path \<Rightarrow> string" where
  \<comment> \<open>\<open>str(p)\<close>\<close>
  "str_path p =
     (if p = [] then ''.''
      else if hd p = ''/'' then ''/'' @ join_with ''/'' (tl p)
      else join_with ''/'' p)"

definition relative_to :: "path \<Rightarrow> path \<Rightarrow> path option" where
  \<comment> \<open>\<open>p.relative_to(base)\<close>; \<open>None\<close> stands for the \<open>ValueError\<close>\<close>
  "relative_to p base =
     (if take (length base) p = base \<and> (base = [] \<longrightarrow> \<not> is_absolute p)
      then Some (drop (length base) p) else None)"

definition numbered :: "string \<Rightarrow> nat \<Rightarrow> string \<Rightarrow> string" where
  \<comment> \<open>the f-string \<open>{base_name}_{counter}{extension}\<close>\<close>
  "numbered base_name counter extension = base_name @ ''_'' @ str_nat counter @ extension"

section \<open>sanitize_filename\<close>

definition invalid_chars :: string where
  "invalid_chars =
     [CHR ''<'', CHR ''>'', CHR '':'', CHR 0x22, CHR ''/'', CHR 0x5C, CHR ''|'', CHR ''?'', CHR ''*'']"

definition sanitize_filename :: "string \<Rightarrow> string" where
  "sanitize_filename name =
     (let name1 = foldl (\<lambda>n char. replace_char char CHR ''_'' n) name invalid_chars;
          name2 = strip ''. '' name1;
          name3 = (if length name2 > 200 then take 200 name2 else name2)
      in if name3 \<noteq> [] then name3 else ''unnamed'')"


subsection \<open>Properties of strip and sanitize_filename\<close>

lemma replace_all_map:
  "foldl (\<lambda>n char. replace_char char CHR ''_'' n) name invalid_chars =
     map (\<lambda>x. if x \<in> set invalid_chars then CHR ''_'' else x) name"
  by (simp add: invalid_chars_def replace_char_def)

lemma set_strip: "set (strip cs xs) \<subseteq> set xs"
proof -
  have "set (strip cs xs) \<subseteq> set (dropWhile (\<lambda>x. x \<in> set cs) xs)"
    unfolding strip_def using set_dropWhileD by fastforce
  also have "\<dots> \<subseteq> set xs" using set_dropWhileD by fastforce
  finally show ?thesis .
qed









definition sanitize_core :: "string \<Rightarrow> string" where
  "sanitize_core name =
     (let y = strip ''. '' (map (\<lambda>x. if x \<in> set invalid_chars then CHR ''_'' else x) name)
      in if length y > 200 then take 200 y else y)"

lemma sanitize_eq:
  "sanitize_filename name = (if sanitize_core name \<noteq> [] then sanitize_core name else ''unnamed'')"
  unfolding sanitize_filename_def replace_all_map sanitize_core_def Let_def ..

lemma core_no_invalid: "set (sanitize_core name) \<inter> set invalid_chars = {}"
proof -
  let ?m = "map (\<lambda>x. if x \<in> set invalid_chars then CHR ''_'' else x) name"
  have c: "CHR ''_'' \<notin> set invalid_chars" by (simp add: invalid_chars_def)
  have m: "set ?m \<inter> set invalid_chars = {}" using c by auto
  have s: "set (strip ''. '' ?m) \<subseteq> set ?m" by (rule set_strip)
  have t: "set (take 200 (strip ''. '' ?m)) \<subseteq> set (strip ''. '' ?m)" by (rule set_take_subset)
  have "set (sanitize_core name) \<subseteq> set ?m"
    unfolding sanitize_core_def Let_def using s t by (cases "200 < length (strip ''. '' ?m)") auto
  then show ?thesis using m by blast
qed


lemma sanitize_no_invalid: "set (sanitize_filename name) \<inter> set invalid_chars = {}"
proof (cases "sanitize_core name = []")
  case True
  then have "sanitize_filename name = ''unnamed''" by (simp add: sanitize_eq)
  then show ?thesis by (simp add: invalid_chars_def)
next
  case False
  then have "sanitize_filename name = sanitize_core name" by (simp add: sanitize_eq)
  then show ?thesis by (simp add: core_no_invalid)
qed


lemma sanitize_nonempty: "sanitize_filename name \<noteq> []"
  by (simp add: sanitize_eq)












text \<open>
  Reserved characters are replaced, not removed: a name of reserved characters only does
  not give the placeholder.
\<close>

lemma sanitize_reserved_only:
  "sanitize_filename ''???'' = ''___''"
  by code_simp

section \<open>Data model\<close>

text \<open>
  The records of the remote API are JSON objects; each key the program reads becomes an
  optional field (\<open>None\<close>: the key is absent). A \<open>Uris\<close> entry is either a string or an
  object with an optional \<open>Uri\<close> key.
\<close>

datatype uri_ref = Uri_str string | Uri_obj "string option"

record image_info =
  ImageKey :: "string option"
  FileName :: "string option"
  ImageUri :: "string option"
  Title :: "string option"
  Caption :: "string option"
  ImageKeywords :: "string option"
  ArchivedUri :: "string option"
  Uris_ImageSizeDetails :: "uri_ref option"
  Uris_LargestImage :: "uri_ref option"
  Uris_ImageDownload :: "uri_ref option"

record album_info =
  AlbumName :: "string option"
  AlbumUri :: "string option"
  Description :: "string option"
  AlbumKeywords :: "string option"

record folder_info =
  FolderName :: "string option"
  Uris_FolderAlbums :: "uri_ref option"
  Uris_Folders :: "uri_ref option"

text \<open>
  Exceptions are values. The handlers of \<open>download_image\<close> tell an HTTP status error
  and a timeout from every other exception, of which they read the type name and the text.
\<close>

datatype exn = HTTPError nat | Timeout string | Error string string

text \<open>
  The file system is a finite table from paths to nodes, the latest entry of a path
  first. The empty path (the working directory) and the root always exist.
\<close>

datatype node = File string | Dir

type_synonym filesystem = "(path \<times> node) list"

definition path_exists :: "filesystem \<Rightarrow> path \<Rightarrow> bool" where
  "path_exists fs p = (p = [] \<or> p = [''/''] \<or> map_of fs p \<noteq> None)"

definition is_dir :: "filesystem \<Rightarrow> path \<Rightarrow> bool" where
  "is_dir fs p = (p = [] \<or> p = [''/''] \<or> map_of fs p = Some Dir)"

record downloader =
  base_path :: path
  total_downloaded :: nat
  total_skipped :: nat
  total_images :: nat
  total_albums :: nat
  total_folders :: nat
  total_metadata_saved :: nat
  total_album_metadata_saved :: nat
  total_duplicates :: nat
  total_renamed :: nat
  failed_downloads :: "(string \<times> string \<times> string) list"
  duplicate_log :: "(string \<times> string \<times> string \<times> string) list"
  renamed_files :: "(string \<times> string \<times> string) list"
  skipped_log :: "(string \<times> string \<times> string \<times> string \<times> string) list"
  logged :: "string list"
  files :: filesystem

definition log :: "string \<Rightarrow> downloader \<Rightarrow> downloader" where
  \<comment> \<open>\<open>self.log(message)\<close>: one more line on the log\<close>
  "log message s = s\<lparr>logged := logged s @ [message]\<rparr>"

definition arrow :: string where
  \<comment> \<open>the arrow of the log messages, in UTF-8\<close>
  "arrow = [CHR 0xE2, CHR 0x86, CHR 0x92]"

section \<open>The naming policy of process_album\<close>

text \<open>
  The two dictionaries of the loop are association lists read with \<open>map_of\<close>; an
  assignment \<open>d[k] = v\<close> puts the pair in front.
\<close>

record plan_state =
  seen_image_keys :: "(string \<times> string) list"
  used_filenames :: "(string \<times> string) list"
  processed_images :: "(image_info \<times> string) list"

definition unique_id_of :: "nat \<Rightarrow> image_info \<Rightarrow> string" where
  "unique_id_of idx img =
     (let image_key = dict_get [] (ImageKey img)
      in if image_key = [] then
           (let image_uri = dict_get [] (ImageUri img)
            in if image_uri \<noteq> [] then ''uri_'' @ image_uri else ''idx_'' @ str_nat idx)
         else image_key)"

definition original_filename_of :: "nat \<Rightarrow> image_info \<Rightarrow> string" where
  "original_filename_of idx img =
     (let image_key = dict_get [] (ImageKey img)
      in dict_get (''image_'' @ (if image_key \<noteq> [] then image_key else str_nat idx))
           (FileName img))"

text \<open>
  The decimal rendering is injective, so the candidate names of the renaming loop are
  pairwise different and the loop ends: only finitely many of them can be taken.
\<close>

lemma digit_val_digit_char: "d < 10 \<Longrightarrow> digit_val (digit_char d) = d"
  by (simp add: digit_val_def digit_char_def)

lemma nat_of_str_snoc: "nat_of_str (ds @ [c]) = 10 * nat_of_str ds + digit_val c"
  by (simp add: nat_of_str_def)

lemma nat_of_str_str_nat: "nat_of_str (str_nat n) = n"
proof (induction n rule: str_nat.induct)
  case (1 n)
  show ?case
  proof (cases "n < 10")
    case True
    then show ?thesis
      by (subst str_nat.simps) (simp add: nat_of_str_def digit_val_digit_char)
  next
    case False
    then have "nat_of_str (str_nat (n div 10)) = n div 10" using 1 by simp
    then show ?thesis using False
      by (subst str_nat.simps) (simp add: nat_of_str_snoc digit_val_digit_char)
  qed
qed

lemma str_nat_inj: "str_nat m = str_nat n \<Longrightarrow> m = n"
  by (metis nat_of_str_str_nat)

lemma numbered_inj: "numbered b m e = numbered b n e \<Longrightarrow> m = n"
  by (simp add: numbered_def str_nat_inj)

lemma inj_numbered: "inj (\<lambda>k. numbered b k e)"
  by (rule injI) (rule numbered_inj)

lemma finite_taken: "finite {k. map_of u (numbered b k e) \<noteq> None}"
proof -
  have "{k. map_of u (numbered b k e) \<noteq> None} = (\<lambda>k. numbered b k e) -` (fst ` set u)"
    by (auto simp: map_of_eq_None_iff)
  moreover have "finite ((\<lambda>k. numbered b k e) -` (fst ` set u))"
    by (rule finite_vimageI[OF _ inj_numbered]) simp
  ultimately show ?thesis by simp
qed

function collision_counter :: "(string \<times> string) list \<Rightarrow> string \<Rightarrow> string \<Rightarrow> nat \<Rightarrow> nat" where
  "collision_counter used base_name extension counter =
     (if map_of used (numbered base_name counter extension) \<noteq> None
      then collision_counter used base_name extension (counter + 1)
      else counter)"
  by pat_completeness auto
termination
proof (relation "measure (\<lambda>(u, b, e, c). card {k. c \<le> k \<and> map_of u (numbered b k e) \<noteq> None})")
  show "wf (measure (\<lambda>(u, b, e, c). card {k. c \<le> k \<and> map_of u (numbered b k e) \<noteq> None}))"
    by simp
next
  fix used :: "(string \<times> string) list" and base_name extension :: string and counter :: nat
  assume a: "map_of used (numbered base_name counter extension) \<noteq> None"
  let ?A = "\<lambda>c. {k. c \<le> k \<and> map_of used (numbered base_name k extension) \<noteq> None}"
  have fin: "finite (?A counter)"
    by (rule finite_subset[OF _ finite_taken[of used base_name extension]]) auto
  have "counter \<in> ?A counter" "counter \<notin> ?A (counter + 1)" "?A (counter + 1) \<subseteq> ?A counter"
    using a by auto
  then have "?A (counter + 1) \<subset> ?A counter" by blast
  then have "card (?A (counter + 1)) < card (?A counter)"
    by (rule psubset_card_mono[OF fin])
  then show "((used, base_name, extension, counter + 1), (used, base_name, extension, counter))
        \<in> measure (\<lambda>(u, b, e, c). card {k. c \<le> k \<and> map_of u (numbered b k e) \<noteq> None})"
    by simp
qed

declare collision_counter.simps [simp del]

lemma collision_counter_free:
  "map_of used (numbered b (collision_counter used b e c) e) = None"
  by (induction used b e c rule: collision_counter.induct)
     (subst collision_counter.simps, simp)

lemma collision_counter_ge: "c \<le> collision_counter used b e c"
  by (induction used b e c rule: collision_counter.induct)
     (subst collision_counter.simps, auto simp: Suc_le_eq less_imp_le)

lemma collision_counter_least:
  "c \<le> k \<Longrightarrow> k < collision_counter used b e c \<Longrightarrow> map_of used (numbered b k e) \<noteq> None"
proof (induction used b e c rule: collision_counter.induct)
  case (1 used b e c)
  show ?case
  proof (cases "map_of used (numbered b c e) \<noteq> None")
    case True
    show ?thesis
    proof (cases "k = c")
      case True
      then show ?thesis using \<open>map_of used (numbered b c e) \<noteq> None\<close> by simp
    next
      case False
      then have "c + 1 \<le> k" using 1(2) by simp
      moreover have "k < collision_counter used b e (c + 1)"
        using 1(3) True by (subst (asm) collision_counter.simps) simp
      ultimately show ?thesis using 1(1)[OF True] by simp
    qed
  next
    case False
    then have "collision_counter used b e c = c" by (subst collision_counter.simps) simp
    then show ?thesis using 1(2,3) by simp
  qed
qed

text \<open>
  One turn of the loop \<open>for idx, image in enumerate(images)\<close>, on the loop's three
  variables and the downloader.
\<close>

definition plan_step ::
  "string \<Rightarrow> plan_state \<times> downloader \<Rightarrow> nat \<times> image_info \<Rightarrow> plan_state \<times> downloader" where
  "plan_step album_name acc entry =
     (let (l, s) = acc;
          (idx, img) = entry;
          original_filename = original_filename_of idx img;
          unique_id = unique_id_of idx img
      in case map_of (seen_image_keys l) unique_id of
           Some original_file \<Rightarrow>
             (let reason = ''True duplicate (ID='' @ unique_id @ '', already seen as '' @
                             original_file @ '')''
              in (l,
                  log (''    [Duplicate detected: '' @ original_filename @ '' - same as '' @
                         original_file @ '']'')
                    (s\<lparr>total_duplicates := total_duplicates s + 1,
                       duplicate_log := duplicate_log s @
                         [(unique_id, original_filename, album_name, reason)]\<rparr>)))
         | None \<Rightarrow>
             (let (final_filename, s1) =
                    (if map_of (used_filenames l) original_filename \<noteq> None then
                       (let base_name = stem original_filename;
                            extension = suffix original_filename;
                            counter = collision_counter (used_filenames l) base_name extension 2;
                            final_filename = numbered base_name counter extension
                        in (final_filename,
                            log (''    [Filename collision: '' @ original_filename @ '' '' @ arrow @
                                   '' '' @ final_filename @ '']'')
                              (s\<lparr>total_renamed := total_renamed s + 1,
                                 renamed_files := renamed_files s @
                                   [(original_filename, final_filename, album_name)]\<rparr>)))
                     else (original_filename, s))
              in (l\<lparr>seen_image_keys := (unique_id, original_filename) # seen_image_keys l,
                    used_filenames := (final_filename, unique_id) # used_filenames l,
                    processed_images := processed_images l @ [(img, final_filename)]\<rparr>,
                  s1)))"

definition empty_plan :: plan_state where
  "empty_plan = \<lparr>seen_image_keys = [], used_filenames = [], processed_images = []\<rparr>"

definition plan_images ::
  "string \<Rightarrow> image_info list \<Rightarrow> downloader \<Rightarrow> plan_state \<times> downloader" where
  "plan_images album_name images s =
     foldl (plan_step album_name) (empty_plan, s) (enumerate 0 images)"

definition album_ids :: "image_info list \<Rightarrow> string list" where
  \<comment> \<open>the identity keys of an album's images, in input order\<close>
  "album_ids images = map (\<lambda>(idx, img). unique_id_of idx img) (enumerate 0 images)"

subsection \<open>The plan's filenames are distinct\<close>

text \<open>
  \<open>final_name\<close> names the value of the loop's variable \<open>final_filename\<close>, given
  the names in use and the image's own filename.
\<close>

definition final_name :: "(string \<times> string) list \<Rightarrow> string \<Rightarrow> string" where
  "final_name used original_filename =
     (if map_of used original_filename \<noteq> None
      then numbered (stem original_filename)
             (collision_counter used (stem original_filename) (suffix original_filename) 2)
             (suffix original_filename)
      else original_filename)"

lemma final_name_free: "map_of used (final_name used f) = None"
  by (simp add: final_name_def collision_counter_free)

lemma fst_plan_step:
  "fst (plan_step a (l, s) (idx, img)) =
     (case map_of (seen_image_keys l) (unique_id_of idx img) of
        Some original_file \<Rightarrow> l
      | None \<Rightarrow>
          l\<lparr>seen_image_keys := (unique_id_of idx img, original_filename_of idx img) # seen_image_keys l,
            used_filenames :=
              (final_name (used_filenames l) (original_filename_of idx img), unique_id_of idx img)
                # used_filenames l,
            processed_images := processed_images l @
              [(img, final_name (used_filenames l) (original_filename_of idx img))]\<rparr>)"
  by (simp add: plan_step_def final_name_def Let_def split: option.splits)

definition names_tracked :: "plan_state \<Rightarrow> bool" where
  "names_tracked l \<longleftrightarrow>
     distinct (map snd (processed_images l)) \<and>
     set (map snd (processed_images l)) \<subseteq> fst ` set (used_filenames l)"

lemma names_tracked_step:
  assumes "names_tracked l"
  shows "names_tracked (fst (plan_step a (l, s) (idx, img)))"
proof (cases "map_of (seen_image_keys l) (unique_id_of idx img)")
  case (Some f)
  then show ?thesis using assms by (simp add: fst_plan_step)
next
  case None
  let ?n = "final_name (used_filenames l) (original_filename_of idx img)"
  have "?n \<notin> fst ` set (used_filenames l)"
    using final_name_free[of "used_filenames l"] by (simp add: map_of_eq_None_iff)
  then show ?thesis using assms None
    by (auto simp: fst_plan_step names_tracked_def)
qed

lemma names_tracked_foldl:
  "names_tracked (fst acc) \<Longrightarrow> names_tracked (fst (foldl (plan_step a) acc xs))"
proof (induction xs arbitrary: acc)
  case Nil
  then show ?case by simp
next
  case (Cons x xs)
  obtain l s where acc: "acc = (l, s)" by (cases acc)
  obtain idx img where x: "x = (idx, img)" by (cases x)
  have "names_tracked (fst (plan_step a acc x))"
    using Cons.prems names_tracked_step[of l a s idx img] by (simp add: acc x)
  then show ?case using Cons.IH by simp
qed

text \<open>
  Claim C1: for every album name, image list and downloader state, the final filenames of
  the plan that the loop of \<open>process_album\<close> builds are pairwise distinct.
\<close>

theorem plan_filenames_distinct:
  "distinct (map snd (processed_images (fst (plan_images album_name images s))))"
proof -
  have "names_tracked (fst (empty_plan, s))" by (simp add: names_tracked_def empty_plan_def)
  then have "names_tracked (fst (plan_images album_name images s))"
    unfolding plan_images_def by (rule names_tracked_foldl)
  then show ?thesis by (simp add: names_tracked_def)
qed

subsection \<open>True duplicates\<close>

text \<open>Example values: an image with a key and a filename only, and the downloader
  as \<open>__init__\<close> leaves it, over a given file system.\<close>

definition example_image :: "string \<Rightarrow> string \<Rightarrow> image_info" where
  "example_image key name =
     \<lparr>ImageKey = Some key, FileName = Some name, ImageUri = None, Title = None, Caption = None,
      ImageKeywords = None, ArchivedUri = None, Uris_ImageSizeDetails = None,
      Uris_LargestImage = None, Uris_ImageDownload = None\<rparr>"

definition init_downloader :: "path \<Rightarrow> filesystem \<Rightarrow> downloader" where
  "init_downloader base fs =
     \<lparr>base_path = base, total_downloaded = 0, total_skipped = 0, total_images = 0,
      total_albums = 0, total_folders = 0, total_metadata_saved = 0,
      total_album_metadata_saved = 0, total_duplicates = 0, total_renamed = 0,
      failed_downloads = [], duplicate_log = [], renamed_files = [], skipped_log = [],
      logged = [], files = fs\<rparr>"



lemma plan_images_snoc:
  "plan_images a (xs @ [x]) s = plan_step a (plan_images a xs s) (length xs, x)"
  by (simp add: plan_images_def enumerate_append_eq)

lemma album_ids_snoc: "album_ids (xs @ [x]) = album_ids xs @ [unique_id_of (length xs) x]"
  by (simp add: album_ids_def enumerate_append_eq)

lemma length_album_ids: "length (album_ids xs) = length xs"
  by (simp add: album_ids_def)

lemma fst_plan_step_acc:
  "fst (plan_step a acc (idx, img)) =
     (case map_of (seen_image_keys (fst acc)) (unique_id_of idx img) of
        Some original_file \<Rightarrow> fst acc
      | None \<Rightarrow>
          (fst acc)\<lparr>seen_image_keys :=
              (unique_id_of idx img, original_filename_of idx img) # seen_image_keys (fst acc),
            used_filenames :=
              (final_name (used_filenames (fst acc)) (original_filename_of idx img),
               unique_id_of idx img) # used_filenames (fst acc),
            processed_images := processed_images (fst acc) @
              [(img, final_name (used_filenames (fst acc)) (original_filename_of idx img))]\<rparr>)"
  by (cases acc) (simp add: fst_plan_step split: option.splits)

lemma duplicates_plan_step:
  "duplicate_log (snd (plan_step a acc (idx, img))) =
     duplicate_log (snd acc) @
       (case map_of (seen_image_keys (fst acc)) (unique_id_of idx img) of
          Some original_file \<Rightarrow>
            [(unique_id_of idx img, original_filename_of idx img, a,
              ''True duplicate (ID='' @ unique_id_of idx img @ '', already seen as '' @
                original_file @ '')'')]
        | None \<Rightarrow> [])"
  "total_duplicates (snd (plan_step a acc (idx, img))) =
     total_duplicates (snd acc) +
       (case map_of (seen_image_keys (fst acc)) (unique_id_of idx img) of
          Some original_file \<Rightarrow> 1 | None \<Rightarrow> 0)"
  by (cases acc; simp add: plan_step_def Let_def log_def split: option.splits)+

lemma seen_keys:
  "set (map fst (seen_image_keys (fst (plan_images a xs s)))) = set (album_ids xs) \<and>
   distinct (map fst (seen_image_keys (fst (plan_images a xs s)))) \<and>
   length (seen_image_keys (fst (plan_images a xs s))) =
     length (processed_images (fst (plan_images a xs s)))"
proof (induction xs rule: rev_induct)
  case Nil
  show ?case by (simp add: plan_images_def empty_plan_def album_ids_def)
next
  case (snoc x xs)
  let ?l = "fst (plan_images a xs s)"
  show ?case
  proof (cases "map_of (seen_image_keys ?l) (unique_id_of (length xs) x)")
    case None
    then have "unique_id_of (length xs) x \<notin> fst ` set (seen_image_keys ?l)"
      by (simp add: map_of_eq_None_iff)
    then show ?thesis using snoc None
      by (simp add: plan_images_snoc album_ids_snoc fst_plan_step_acc)
  next
    case (Some f)
    then have "unique_id_of (length xs) x \<in> fst ` set (seen_image_keys ?l)"
      by (metis map_of_eq_None_iff option.distinct(1))
    then have "unique_id_of (length xs) x \<in> set (album_ids xs)" using snoc by simp
    then show ?thesis using snoc Some
      by (auto simp: plan_images_snoc album_ids_snoc fst_plan_step_acc)
  qed
qed

lemma seen_iff:
  "map_of (seen_image_keys (fst (plan_images a xs s))) u = None \<longleftrightarrow> u \<notin> set (album_ids xs)"
  using seen_keys[of a xs s] by (simp add: map_of_eq_None_iff)

lemma filter_enumerate_snoc:
  "filter (\<lambda>(i, img). P i (take i (ids @ [u])) img) (enumerate 0 xs) =
   filter (\<lambda>(i, img). P i (take i ids) img) (enumerate 0 xs)" if "length ids = length xs"
  by (rule filter_cong) (auto simp: in_set_enumerate_eq that)

lemma first_occurrence_snoc:
  "filter (\<lambda>(i, img). unique_id_of i img \<notin> set (take i (album_ids (xs @ [x]))))
     (enumerate 0 (xs @ [x])) =
   filter (\<lambda>(i, img). unique_id_of i img \<notin> set (take i (album_ids xs))) (enumerate 0 xs) @
     (if unique_id_of (length xs) x \<in> set (album_ids xs) then [] else [(length xs, x)])"
proof -
  have f: "filter (\<lambda>(i, img). unique_id_of i img \<notin> set (take i (album_ids xs @ [unique_id_of (length xs) x])))
             (enumerate 0 xs) =
           filter (\<lambda>(i, img). unique_id_of i img \<notin> set (take i (album_ids xs))) (enumerate 0 xs)"
    using filter_enumerate_snoc[of "album_ids xs" xs "\<lambda>i t img. unique_id_of i img \<notin> set t"]
    by (simp only: length_album_ids)
  show ?thesis
    unfolding album_ids_snoc enumerate_append_eq filter_append f
    by (simp add: length_album_ids)
qed

lemma later_occurrence_snoc:
  "filter (\<lambda>(i, img). unique_id_of i img \<in> set (take i (album_ids (xs @ [x]))))
     (enumerate 0 (xs @ [x])) =
   filter (\<lambda>(i, img). unique_id_of i img \<in> set (take i (album_ids xs))) (enumerate 0 xs) @
     (if unique_id_of (length xs) x \<in> set (album_ids xs) then [(length xs, x)] else [])"
proof -
  have f: "filter (\<lambda>(i, img). unique_id_of i img \<in> set (take i (album_ids xs @ [unique_id_of (length xs) x])))
             (enumerate 0 xs) =
           filter (\<lambda>(i, img). unique_id_of i img \<in> set (take i (album_ids xs))) (enumerate 0 xs)"
    using filter_enumerate_snoc[of "album_ids xs" xs "\<lambda>i t img. unique_id_of i img \<in> set t"]
    by (simp only: length_album_ids)
  show ?thesis
    unfolding album_ids_snoc enumerate_append_eq filter_append f
    by (simp add: length_album_ids)
qed

lemma plan_first_occurrences:
  "map fst (processed_images (fst (plan_images a xs s))) =
     map snd (filter (\<lambda>(i, img). unique_id_of i img \<notin> set (take i (album_ids xs)))
                (enumerate 0 xs))"
proof (induction xs rule: rev_induct)
  case Nil
  show ?case by (simp add: plan_images_def empty_plan_def)
next
  case (snoc x xs)
  show ?case
  proof (cases "unique_id_of (length xs) x \<in> set (album_ids xs)")
    case True
    then obtain g where "map_of (seen_image_keys (fst (plan_images a xs s))) (unique_id_of (length xs) x) = Some g"
      using seen_iff[of a xs s] by fastforce
    then show ?thesis using True snoc
      unfolding first_occurrence_snoc
      by (simp add: plan_images_snoc fst_plan_step_acc)
  next
    case False
    then have "map_of (seen_image_keys (fst (plan_images a xs s))) (unique_id_of (length xs) x) = None"
      by (simp add: seen_iff)
    then show ?thesis using False snoc
      unfolding first_occurrence_snoc
      by (simp add: plan_images_snoc fst_plan_step_acc)
  qed
qed

lemma plan_duplicate_events:
  "map (\<lambda>(k, f, al, r). (k, f, al)) (duplicate_log (snd (plan_images a xs s))) =
     map (\<lambda>(k, f, al, r). (k, f, al)) (duplicate_log s) @
     map (\<lambda>(i, img). (unique_id_of i img, original_filename_of i img, a))
       (filter (\<lambda>(i, img). unique_id_of i img \<in> set (take i (album_ids xs))) (enumerate 0 xs))"
proof (induction xs rule: rev_induct)
  case Nil
  show ?case by (simp add: plan_images_def)
next
  case (snoc x xs)
  show ?case
  proof (cases "unique_id_of (length xs) x \<in> set (album_ids xs)")
    case True
    then obtain g where "map_of (seen_image_keys (fst (plan_images a xs s))) (unique_id_of (length xs) x) = Some g"
      using seen_iff[of a xs s] by fastforce
    then show ?thesis using True snoc
      unfolding later_occurrence_snoc
      by (simp add: plan_images_snoc duplicates_plan_step)
  next
    case False
    then have "map_of (seen_image_keys (fst (plan_images a xs s))) (unique_id_of (length xs) x) = None"
      by (simp add: seen_iff)
    then show ?thesis using False snoc
      unfolding later_occurrence_snoc
      by (simp add: plan_images_snoc duplicates_plan_step)
  qed
qed

lemma plan_counts:
  "total_duplicates (snd (plan_images a xs s)) + length (processed_images (fst (plan_images a xs s)))
     = total_duplicates s + length xs \<and>
   length (duplicate_log (snd (plan_images a xs s))) + length (processed_images (fst (plan_images a xs s)))
     = length (duplicate_log s) + length xs"
proof (induction xs rule: rev_induct)
  case Nil
  show ?case by (simp add: plan_images_def empty_plan_def)
next
  case (snoc x xs)
  show ?case
    using snoc
    by (cases "map_of (seen_image_keys (fst (plan_images a xs s))) (unique_id_of (length xs) x)")
       (simp_all add: plan_images_snoc duplicates_plan_step fst_plan_step_acc)
qed

lemma plan_length: "length (processed_images (fst (plan_images a xs s))) = card (set (album_ids xs))"
proof -
  have "card (set (album_ids xs)) = card (set (map fst (seen_image_keys (fst (plan_images a xs s)))))"
    using seen_keys[of a xs s] by simp
  also have "\<dots> = length (map fst (seen_image_keys (fst (plan_images a xs s))))"
    using seen_keys[of a xs s] by (intro distinct_card) simp
  finally show ?thesis using seen_keys[of a xs s] by simp
qed

lemma album_ids_pair:
  "ImageKey i1 = Some k \<Longrightarrow> ImageKey i2 = Some k \<Longrightarrow> k \<noteq> [] \<Longrightarrow> album_ids [i1, i2] = [k, k]"
  by (simp add: album_ids_def unique_id_of_def dict_get_def)

definition example_keyless_image :: "string option \<Rightarrow> string \<Rightarrow> image_info" where
  \<comment> \<open>an image without a key, with or without a URI\<close>
  "example_keyless_image uri name = (example_image [] name)\<lparr>ImageKey := None, ImageUri := uri\<rparr>"

lemma unique_id_of_cases:
  "(ImageKey img = Some k \<and> k \<noteq> [] \<longrightarrow> unique_id_of idx img = k) \<and>
   (dict_get [] (ImageKey img) = [] \<and> ImageUri img = Some u \<and> u \<noteq> [] \<longrightarrow>
      unique_id_of idx img = ''uri_'' @ u) \<and>
   (dict_get [] (ImageKey img) = [] \<and> dict_get [] (ImageUri img) = [] \<longrightarrow>
      unique_id_of idx img = ''idx_'' @ str_nat idx)"
  by (simp add: unique_id_of_def dict_get_def)

lemma album_ids_nth:
  "i < length images \<Longrightarrow> album_ids images ! i = unique_id_of i (images ! i)"
  by (simp add: album_ids_def enumerate_eq_zip)

lemma later_occurrence_dropped:
  assumes "i < j" "j < length images"
    and "unique_id_of i (images ! i) = unique_id_of j (images ! j)"
  shows "(j, images ! j) \<notin> set (filter (\<lambda>(i, img). unique_id_of i img \<notin> set (take i (album_ids images)))
                (enumerate 0 images))"
proof -
  have "album_ids images ! i = unique_id_of j (images ! j)"
    using assms album_ids_nth[of i images] by simp
  moreover have "i < length (take j (album_ids images))"
    using assms by (simp add: length_album_ids)
  ultimately have "unique_id_of j (images ! j) \<in> set (take j (album_ids images))"
    using assms(1) by (metis nth_mem nth_take)
  then show ?thesis by simp
qed

lemma album_ids_two:
  "album_ids [i1, i2] = [unique_id_of 0 i1, unique_id_of 1 i2]"
  by (simp add: album_ids_def)

lemma idx_ids_differ: "''idx_'' @ str_nat 0 \<noteq> ''idx_'' @ str_nat 1"
  using str_nat_inj[of 0 1] by auto

text \<open>
  Claim C2: duplicates are found by identity key, whatever the filenames. The identity
  key of an image is its image key when that is present and not empty, else \<open>uri_\<close>
  followed by its URI when that is present and not empty, else \<open>idx_\<close> followed by its
  position in the album. The images of the plan are exactly the images whose identity
  key does not occur earlier in the album, in input order, so the plan has one entry for
  each identity key and an image whose key equals that of an earlier image is not in the
  plan; every such image adds exactly one entry to the duplicate log, with its key, its
  filename and the album, and one to the counter. Two images sharing a non-empty image
  key, or having no image key and sharing a non-empty URI, give one plan entry and one
  duplicate event; two images with neither key nor URI are both planned.
\<close>

theorem true_duplicates_by_identity:
  "map fst (processed_images (fst (plan_images a images s))) =
     map snd (filter (\<lambda>(i, img). unique_id_of i img \<notin> set (take i (album_ids images)))
                (enumerate 0 images)) \<and>
   map (\<lambda>(k, f, al, r). (k, f, al)) (duplicate_log (snd (plan_images a images s))) =
     map (\<lambda>(k, f, al, r). (k, f, al)) (duplicate_log s) @
     map (\<lambda>(i, img). (unique_id_of i img, original_filename_of i img, a))
       (filter (\<lambda>(i, img). unique_id_of i img \<in> set (take i (album_ids images)))
          (enumerate 0 images)) \<and>
   length (processed_images (fst (plan_images a images s))) = card (set (album_ids images)) \<and>
   length (duplicate_log (snd (plan_images a images s))) =
     length (duplicate_log s) + (length images - card (set (album_ids images))) \<and>
   total_duplicates (snd (plan_images a images s)) =
     total_duplicates s + (length images - card (set (album_ids images))) \<and>
   (ImageKey i1 = Some k \<and> ImageKey i2 = Some k \<and> k \<noteq> [] \<longrightarrow>
      length (processed_images (fst (plan_images a [i1, i2] s))) = 1 \<and>
      length (duplicate_log (snd (plan_images a [i1, i2] s))) = length (duplicate_log s) + 1) \<and>
   (ImageKey img = Some k \<and> k \<noteq> [] \<longrightarrow> unique_id_of idx img = k) \<and>
   (dict_get [] (ImageKey img) = [] \<and> ImageUri img = Some u \<and> u \<noteq> [] \<longrightarrow>
      unique_id_of idx img = ''uri_'' @ u) \<and>
   (dict_get [] (ImageKey img) = [] \<and> dict_get [] (ImageUri img) = [] \<longrightarrow>
      unique_id_of idx img = ''idx_'' @ str_nat idx) \<and>
   (\<forall>i j. i < j \<and> j < length images \<and>
           unique_id_of i (images ! i) = unique_id_of j (images ! j) \<longrightarrow>
      (j, images ! j) \<notin> set (filter (\<lambda>(i, img). unique_id_of i img \<notin> set (take i (album_ids images)))
                              (enumerate 0 images))) \<and>
   (dict_get [] (ImageKey i1) = [] \<and> dict_get [] (ImageKey i2) = [] \<and>
    ImageUri i1 = Some u \<and> ImageUri i2 = Some u \<and> u \<noteq> [] \<longrightarrow>
      map fst (processed_images (fst (plan_images a [i1, i2] s))) = [i1] \<and>
      length (duplicate_log (snd (plan_images a [i1, i2] s))) = length (duplicate_log s) + 1) \<and>
   (dict_get [] (ImageKey i1) = [] \<and> dict_get [] (ImageKey i2) = [] \<and>
    dict_get [] (ImageUri i1) = [] \<and> dict_get [] (ImageUri i2) = [] \<longrightarrow>
      map fst (processed_images (fst (plan_images a [i1, i2] s))) = [i1, i2] \<and>
      duplicate_log (snd (plan_images a [i1, i2] s)) = duplicate_log s)"
proof -
  have n: "length (processed_images (fst (plan_images a xs s))) = card (set (album_ids xs))" for xs
    by (rule plan_length)
  have d: "length (duplicate_log (snd (plan_images a xs s))) =
             length (duplicate_log s) + (length xs - card (set (album_ids xs)))" for xs
    using plan_counts[of a xs s] n[of xs] card_length[of "album_ids xs"] length_album_ids[of xs]
    by linarith
  have t: "total_duplicates (snd (plan_images a images s)) =
             total_duplicates s + (length images - card (set (album_ids images)))"
    using plan_counts[of a images s] n[of images] card_length[of "album_ids images"]
      length_album_ids[of images]
    by linarith
  have p: "length (processed_images (fst (plan_images a [i1, i2] s))) = 1 \<and>
           length (duplicate_log (snd (plan_images a [i1, i2] s))) = length (duplicate_log s) + 1"
    if "ImageKey i1 = Some k" "ImageKey i2 = Some k" "k \<noteq> []"
    using n[of "[i1, i2]"] d[of "[i1, i2]"] album_ids_pair[OF that] by simp
  have same: "map fst (processed_images (fst (plan_images a [i1, i2] s))) = [i1] \<and>
      length (duplicate_log (snd (plan_images a [i1, i2] s))) = length (duplicate_log s) + 1"
    if "unique_id_of 0 i1 = unique_id_of 1 i2"
    using plan_first_occurrences[of a "[i1, i2]" s] d[of "[i1, i2]"] that
    by (simp add: album_ids_two)
  have differ: "map fst (processed_images (fst (plan_images a [i1, i2] s))) = [i1, i2] \<and>
      duplicate_log (snd (plan_images a [i1, i2] s)) = duplicate_log s"
    if "unique_id_of 0 i1 \<noteq> unique_id_of 1 i2"
  proof -
    have 1: "map fst (processed_images (fst (plan_images a [i1, i2] s))) = [i1, i2]"
      using plan_first_occurrences[of a "[i1, i2]" s] that by (simp add: album_ids_two)
    have "map (\<lambda>(k, f, al, r). (k, f, al)) (duplicate_log (snd (plan_images a [i1, i2] s))) =
          map (\<lambda>(k, f, al, r). (k, f, al)) (duplicate_log s)"
      using plan_duplicate_events[of a "[i1, i2]" s] that by (simp add: album_ids_two)
    then have "length (duplicate_log (snd (plan_images a [i1, i2] s))) = length (duplicate_log s)"
      by (metis length_map)
    moreover have "\<exists>rest. duplicate_log (snd (plan_images a [i1, i2] s)) = duplicate_log s @ rest"
      by (simp add: plan_images_def plan_step_def Let_def log_def split: option.splits prod.splits)
    ultimately have "duplicate_log (snd (plan_images a [i1, i2] s)) = duplicate_log s" by auto
    then show ?thesis using 1 by simp
  qed
  have uri: "map fst (processed_images (fst (plan_images a [i1, i2] s))) = [i1] \<and>
      length (duplicate_log (snd (plan_images a [i1, i2] s))) = length (duplicate_log s) + 1"
    if "dict_get [] (ImageKey i1) = []" "dict_get [] (ImageKey i2) = []"
       "ImageUri i1 = Some u" "ImageUri i2 = Some u" "u \<noteq> []"
  proof -
    have "unique_id_of 0 i1 = unique_id_of 1 i2"
      using that unique_id_of_cases[where img = i1 and u = u and idx = 0]
        unique_id_of_cases[where img = i2 and u = u and idx = 1] by simp
    then show ?thesis by (rule same)
  qed
  have idx: "map fst (processed_images (fst (plan_images a [i1, i2] s))) = [i1, i2] \<and>
      duplicate_log (snd (plan_images a [i1, i2] s)) = duplicate_log s"
    if "dict_get [] (ImageKey i1) = []" "dict_get [] (ImageKey i2) = []"
       "dict_get [] (ImageUri i1) = []" "dict_get [] (ImageUri i2) = []"
  proof -
    have "unique_id_of 0 i1 = ''idx_'' @ str_nat 0" "unique_id_of 1 i2 = ''idx_'' @ str_nat 1"
      using that unique_id_of_cases[where img = i1 and u = u and idx = 0]
        unique_id_of_cases[where img = i2 and u = u and idx = 1] by simp_all
    then have "unique_id_of 0 i1 \<noteq> unique_id_of 1 i2" using idx_ids_differ by simp
    then show ?thesis by (rule differ)
  qed
  have later: "\<forall>i j. i < j \<and> j < length images \<and>
           unique_id_of i (images ! i) = unique_id_of j (images ! j) \<longrightarrow>
      (j, images ! j) \<notin> set (filter (\<lambda>(i, img). unique_id_of i img \<notin> set (take i (album_ids images)))
                              (enumerate 0 images))"
    using later_occurrence_dropped by blast
  show ?thesis
    using plan_first_occurrences[of a images s] plan_duplicate_events[of a images s]
      n[of images] d[of images] t p unique_id_of_cases[where img = img and k = k and u = u and idx = idx] later uri idx
    by blast
qed


theorem true_duplicates_by_identity_witness:
  "ImageKey (example_image ''K1'' ''a.jpg'') = Some ''K1'' \<and>
   ImageKey (example_image ''K1'' ''b.jpg'') = Some ''K1'' \<and>
   length (processed_images (fst (plan_images ''Album''
      [example_image ''K1'' ''a.jpg'', example_image ''K1'' ''b.jpg''] (init_downloader [''dl''] [])))) = 1 \<and>
   length (duplicate_log (snd (plan_images ''Album''
      [example_image ''K1'' ''a.jpg'', example_image ''K1'' ''b.jpg''] (init_downloader [''dl''] [])))) = 1 \<and>
   (1, example_image ''K1'' ''b.jpg'') \<notin> set (filter
      (\<lambda>(i, img). unique_id_of i img \<notin> set (take i (album_ids
         [example_image ''K1'' ''a.jpg'', example_image ''K1'' ''b.jpg''])))
      (enumerate 0 [example_image ''K1'' ''a.jpg'', example_image ''K1'' ''b.jpg''])) \<and>
   unique_id_of 0 (example_keyless_image (Some ''/api/v2/image/X'') ''a.jpg'') =
     ''uri_/api/v2/image/X'' \<and>
   map fst (processed_images (fst (plan_images ''Album''
      [example_keyless_image (Some ''/api/v2/image/X'') ''a.jpg'',
       example_keyless_image (Some ''/api/v2/image/X'') ''b.jpg''] (init_downloader [''dl''] [])))) =
     [example_keyless_image (Some ''/api/v2/image/X'') ''a.jpg''] \<and>
   length (duplicate_log (snd (plan_images ''Album''
      [example_keyless_image (Some ''/api/v2/image/X'') ''a.jpg'',
       example_keyless_image (Some ''/api/v2/image/X'') ''b.jpg''] (init_downloader [''dl''] [])))) = 1 \<and>
   unique_id_of 1 (example_keyless_image None ''b.jpg'') = ''idx_1'' \<and>
   map fst (processed_images (fst (plan_images ''Album''
      [example_keyless_image None ''a.jpg'', example_keyless_image None ''a.jpg'']
      (init_downloader [''dl''] [])))) =
     [example_keyless_image None ''a.jpg'', example_keyless_image None ''a.jpg''] \<and>
   duplicate_log (snd (plan_images ''Album''
      [example_keyless_image None ''a.jpg'', example_keyless_image None ''a.jpg'']
      (init_downloader [''dl''] []))) = []"
proof -
  let ?s = "init_downloader [''dl''] []"
  let ?u = "example_keyless_image (Some ''/api/v2/image/X'')"
  let ?n = "example_keyless_image None"
  have 1: "ImageKey (example_image ''K1'' ''a.jpg'') = Some ''K1''"
    and 2: "ImageKey (example_image ''K1'' ''b.jpg'') = Some ''K1''"
    by (simp_all add: example_image_def)
  have 3: "''K1'' \<noteq> []" by simp
  have 4: "duplicate_log ?s = []" by (simp add: init_downloader_def)
  have 5: "dict_get [] (ImageKey (?u ''a.jpg'')) = []" "dict_get [] (ImageKey (?u ''b.jpg'')) = []"
    "ImageUri (?u ''a.jpg'') = Some ''/api/v2/image/X''"
    "ImageUri (?u ''b.jpg'') = Some ''/api/v2/image/X''" "''/api/v2/image/X'' \<noteq> []"
    by (simp_all add: example_keyless_image_def example_image_def dict_get_def)
  have 6: "dict_get [] (ImageKey (?n ''a.jpg'')) = []" "dict_get [] (ImageUri (?n ''a.jpg'')) = []"
    "dict_get [] (ImageKey (?n ''b.jpg'')) = []" "dict_get [] (ImageUri (?n ''b.jpg'')) = []"
    by (simp_all add: example_keyless_image_def example_image_def dict_get_def)
  have 7: "(0::nat) < 1" "1 < length [example_image ''K1'' ''a.jpg'', example_image ''K1'' ''b.jpg'']"
    "unique_id_of 0 ([example_image ''K1'' ''a.jpg'', example_image ''K1'' ''b.jpg''] ! 0) =
     unique_id_of 1 ([example_image ''K1'' ''a.jpg'', example_image ''K1'' ''b.jpg''] ! 1)"
    "[example_image ''K1'' ''a.jpg'', example_image ''K1'' ''b.jpg''] ! 1 = example_image ''K1'' ''b.jpg''"
    by (simp_all add: unique_id_of_def example_image_def dict_get_def)
  have 8: "''idx_'' @ str_nat 1 = ''idx_1''" by code_simp
  note k = true_duplicates_by_identity[where a = "''Album''"
      and images = "[example_image ''K1'' ''a.jpg'', example_image ''K1'' ''b.jpg'']"
      and s = ?s and ?i1.0 = "example_image ''K1'' ''a.jpg''" and k = "''K1''"
      and ?i2.0 = "example_image ''K1'' ''b.jpg''"]
  note u = true_duplicates_by_identity[where a = "''Album''" and images = "[]" and s = ?s
      and ?i1.0 = "?u ''a.jpg''" and ?i2.0 = "?u ''b.jpg''" and u = "''/api/v2/image/X''"
      and img = "?u ''a.jpg''" and idx = 0]
  note n = true_duplicates_by_identity[where a = "''Album''" and images = "[]" and s = ?s
      and ?i1.0 = "?n ''a.jpg''" and ?i2.0 = "?n ''a.jpg''" and img = "?n ''b.jpg''" and idx = 1]
  note k6 = k[THEN conjunct2, THEN conjunct2, THEN conjunct2, THEN conjunct2, THEN conjunct2,
      THEN conjunct1, THEN mp, OF conjI[OF 1 conjI[OF 2 3]]]
  note k10 = k[THEN conjunct2, THEN conjunct2, THEN conjunct2, THEN conjunct2, THEN conjunct2,
      THEN conjunct2, THEN conjunct2, THEN conjunct2, THEN conjunct2, THEN conjunct1,
      THEN spec, THEN spec, THEN mp, OF conjI[OF 7(1) conjI[OF 7(2) 7(3)]]]
  note u8 = u[THEN conjunct2, THEN conjunct2, THEN conjunct2, THEN conjunct2, THEN conjunct2,
      THEN conjunct2, THEN conjunct2, THEN conjunct1, THEN mp, OF conjI[OF 5(1) conjI[OF 5(3) 5(5)]]]
  note u11 = u[THEN conjunct2, THEN conjunct2, THEN conjunct2, THEN conjunct2, THEN conjunct2,
      THEN conjunct2, THEN conjunct2, THEN conjunct2, THEN conjunct2, THEN conjunct2,
      THEN conjunct1, THEN mp,
      OF conjI[OF 5(1) conjI[OF 5(2) conjI[OF 5(3) conjI[OF 5(4) 5(5)]]]]]
  note n9 = n[THEN conjunct2, THEN conjunct2, THEN conjunct2, THEN conjunct2, THEN conjunct2,
      THEN conjunct2, THEN conjunct2, THEN conjunct2, THEN conjunct1, THEN mp,
      OF conjI[OF 6(3) 6(4)]]
  note n12 = n[THEN conjunct2, THEN conjunct2, THEN conjunct2, THEN conjunct2, THEN conjunct2,
      THEN conjunct2, THEN conjunct2, THEN conjunct2, THEN conjunct2, THEN conjunct2,
      THEN conjunct2, THEN mp,
      OF conjI[OF 6(1) conjI[OF 6(1) conjI[OF 6(2) 6(2)]]]]
  have a: "length (processed_images (fst (plan_images ''Album''
      [example_image ''K1'' ''a.jpg'', example_image ''K1'' ''b.jpg''] ?s))) = 1"
    "length (duplicate_log (snd (plan_images ''Album''
      [example_image ''K1'' ''a.jpg'', example_image ''K1'' ''b.jpg''] ?s))) = 1"
    using k6 4 by simp_all
  have b: "(1, example_image ''K1'' ''b.jpg'') \<notin> set (filter
      (\<lambda>(i, img). unique_id_of i img \<notin> set (take i (album_ids
         [example_image ''K1'' ''a.jpg'', example_image ''K1'' ''b.jpg''])))
      (enumerate 0 [example_image ''K1'' ''a.jpg'', example_image ''K1'' ''b.jpg'']))"
    using k10 unfolding 7(4) .
  have c: "unique_id_of 0 (?u ''a.jpg'') = ''uri_/api/v2/image/X''"
    using u8 by simp
  have c': "map fst (processed_images (fst (plan_images ''Album'' [?u ''a.jpg'', ?u ''b.jpg''] ?s))) =
       [?u ''a.jpg'']"
    "length (duplicate_log (snd (plan_images ''Album'' [?u ''a.jpg'', ?u ''b.jpg''] ?s))) = 1"
    using u11 4 by simp_all
  have d: "unique_id_of 1 (?n ''b.jpg'') = ''idx_1''" using n9 8 by simp
  have d': "map fst (processed_images (fst (plan_images ''Album'' [?n ''a.jpg'', ?n ''a.jpg''] ?s))) =
       [?n ''a.jpg'', ?n ''a.jpg'']"
    "duplicate_log (snd (plan_images ''Album'' [?n ''a.jpg'', ?n ''a.jpg''] ?s)) = []"
    using n12 4 by simp_all
  show ?thesis using 1 2 a b c c' d d' by simp
qed

subsection \<open>Collision renaming\<close>

lemma renames_plan_step:
  "renamed_files (snd (plan_step a acc (idx, img))) =
     renamed_files (snd acc) @
       (case map_of (seen_image_keys (fst acc)) (unique_id_of idx img) of
          Some original_file \<Rightarrow> []
        | None \<Rightarrow>
            (if map_of (used_filenames (fst acc)) (original_filename_of idx img) \<noteq> None
             then [(original_filename_of idx img,
                    final_name (used_filenames (fst acc)) (original_filename_of idx img), a)]
             else []))"
  "total_renamed (snd (plan_step a acc (idx, img))) =
     total_renamed (snd acc) +
       (case map_of (seen_image_keys (fst acc)) (unique_id_of idx img) of
          Some original_file \<Rightarrow> 0
        | None \<Rightarrow>
            (if map_of (used_filenames (fst acc)) (original_filename_of idx img) \<noteq> None
             then 1 else 0))"
  by (cases acc; simp add: plan_step_def final_name_def Let_def log_def split: option.splits)+

lemma used_names:
  "fst ` set (used_filenames (fst (plan_images a xs s))) =
     set (map snd (processed_images (fst (plan_images a xs s))))"
proof (induction xs rule: rev_induct)
  case Nil
  show ?case by (simp add: plan_images_def empty_plan_def)
next
  case (snoc x xs)
  show ?case using snoc
    by (cases "map_of (seen_image_keys (fst (plan_images a xs s))) (unique_id_of (length xs) x)")
       (simp_all add: plan_images_snoc fst_plan_step_acc)
qed

lemma used_iff:
  "map_of (used_filenames (fst (plan_images a xs s))) f = None \<longleftrightarrow>
     f \<notin> set (map snd (processed_images (fst (plan_images a xs s))))"
  using used_names[of a xs s] by (simp add: map_of_eq_None_iff)

lemma plan_prefix:
  "\<exists>rest. processed_images (fst (plan_images a (pre @ post) s)) =
     processed_images (fst (plan_images a pre s)) @ rest"
proof (induction post rule: rev_induct)
  case Nil
  show ?case by simp
next
  case (snoc y post)
  then obtain rest where r: "processed_images (fst (plan_images a (pre @ post) s)) =
     processed_images (fst (plan_images a pre s)) @ rest" by blast
  have "plan_images a (pre @ post @ [y]) s =
          plan_step a (plan_images a (pre @ post) s) (length (pre @ post), y)"
    using plan_images_snoc[of a "pre @ post" y s] by simp
  then show ?case using r
    by (cases "map_of (seen_image_keys (fst (plan_images a (pre @ post) s)))
                 (unique_id_of (length (pre @ post)) y)")
       (simp_all add: fst_plan_step_acc)
qed

lemma final_name_cases:
  "(map_of used f = None \<longrightarrow> final_name used f = f) \<and>
   (map_of used f \<noteq> None \<longrightarrow>
      (\<exists>k\<ge>2. final_name used f = numbered (stem f) k (suffix f) \<and>
         map_of used (numbered (stem f) k (suffix f)) = None \<and>
         (\<forall>j. 2 \<le> j \<and> j < k \<longrightarrow> map_of used (numbered (stem f) j (suffix f)) \<noteq> None)))"
proof -
  let ?k = "collision_counter used (stem f) (suffix f) 2"
  have "2 \<le> ?k" by (rule collision_counter_ge)
  moreover have "map_of used (numbered (stem f) ?k (suffix f)) = None"
    by (rule collision_counter_free)
  moreover have "\<forall>j. 2 \<le> j \<and> j < ?k \<longrightarrow> map_of used (numbered (stem f) j (suffix f)) \<noteq> None"
    using collision_counter_least by blast
  ultimately show ?thesis unfolding final_name_def by auto
qed

text \<open>
  Claim C3, as the code has it. Take an image \<open>x\<close> of an album that is not a true
  duplicate, after the images \<open>pre\<close> and before the images \<open>post\<close>. Its plan entry
  follows the entries of \<open>pre\<close> and is not changed by \<open>post\<close>. If no earlier plan entry
  has its filename as final filename, it keeps its filename and no rename event is
  recorded. Otherwise it gets the first name \<open>stem_k.suffix\<close>, \<open>k = 2, 3, ...\<close>, that is
  not the final filename of an earlier plan entry, and one rename event is recorded.
  The names compared are the final filenames of the earlier entries, so an image can be
  renamed although no earlier image had its filename.
\<close>

theorem collision_renaming:
  assumes "unique_id_of (length pre) x \<notin> set (album_ids pre)"
    and "f = original_filename_of (length pre) x"
    and "taken = set (map snd (processed_images (fst (plan_images a pre s))))"
  shows "\<exists>fin rest.
     processed_images (fst (plan_images a (pre @ x # post) s)) =
       processed_images (fst (plan_images a pre s)) @ (x, fin) # rest \<and>
     (f \<notin> taken \<longrightarrow>
        fin = f \<and>
        renamed_files (snd (plan_images a (pre @ [x]) s)) =
          renamed_files (snd (plan_images a pre s)) \<and>
        total_renamed (snd (plan_images a (pre @ [x]) s)) =
          total_renamed (snd (plan_images a pre s))) \<and>
     (f \<in> taken \<longrightarrow>
        (\<exists>k\<ge>2. fin = numbered (stem f) k (suffix f) \<and> fin \<notin> taken \<and>
           (\<forall>j. 2 \<le> j \<and> j < k \<longrightarrow> numbered (stem f) j (suffix f) \<in> taken)) \<and>
        renamed_files (snd (plan_images a (pre @ [x]) s)) =
          renamed_files (snd (plan_images a pre s)) @ [(f, fin, a)] \<and>
        total_renamed (snd (plan_images a (pre @ [x]) s)) =
          total_renamed (snd (plan_images a pre s)) + 1)"
proof -
  let ?acc = "plan_images a pre s"
  let ?used = "used_filenames (fst ?acc)"
  let ?fin = "final_name ?used f"
  have none: "map_of (seen_image_keys (fst ?acc)) (unique_id_of (length pre) x) = None"
    using assms(1) by (simp add: seen_iff)
  have one: "processed_images (fst (plan_images a (pre @ [x]) s)) =
               processed_images (fst ?acc) @ [(x, ?fin)]"
    using none by (simp add: plan_images_snoc fst_plan_step_acc assms(2))
  obtain rest where "processed_images (fst (plan_images a ((pre @ [x]) @ post) s)) =
      processed_images (fst (plan_images a (pre @ [x]) s)) @ rest"
    using plan_prefix[of a "pre @ [x]" post s] by blast
  then have whole: "processed_images (fst (plan_images a (pre @ x # post) s)) =
      processed_images (fst ?acc) @ (x, ?fin) # rest"
    using one by simp
  have tk: "map_of ?used g = None \<longleftrightarrow> g \<notin> taken" for g
    unfolding assms(3) by (rule used_iff)
  have keep: "f \<notin> taken \<longrightarrow>
        ?fin = f \<and>
        renamed_files (snd (plan_images a (pre @ [x]) s)) = renamed_files (snd ?acc) \<and>
        total_renamed (snd (plan_images a (pre @ [x]) s)) = total_renamed (snd ?acc)"
    using none final_name_cases[of ?used f] tk[of f]
    by (simp add: plan_images_snoc renames_plan_step assms(2)[symmetric])
  have ren: "f \<in> taken \<longrightarrow>
        (\<exists>k\<ge>2. ?fin = numbered (stem f) k (suffix f) \<and> ?fin \<notin> taken \<and>
           (\<forall>j. 2 \<le> j \<and> j < k \<longrightarrow> numbered (stem f) j (suffix f) \<in> taken)) \<and>
        renamed_files (snd (plan_images a (pre @ [x]) s)) =
          renamed_files (snd ?acc) @ [(f, ?fin, a)] \<and>
        total_renamed (snd (plan_images a (pre @ [x]) s)) = total_renamed (snd ?acc) + 1"
  proof
    assume t: "f \<in> taken"
    then have u: "map_of ?used f \<noteq> None" using tk[of f] by simp
    then obtain k where k: "2 \<le> k" "?fin = numbered (stem f) k (suffix f)"
      "map_of ?used (numbered (stem f) k (suffix f)) = None"
      "\<forall>j. 2 \<le> j \<and> j < k \<longrightarrow> map_of ?used (numbered (stem f) j (suffix f)) \<noteq> None"
      using final_name_cases[of ?used f] by blast
    have a1: "\<exists>k\<ge>2. ?fin = numbered (stem f) k (suffix f) \<and> ?fin \<notin> taken \<and>
           (\<forall>j. 2 \<le> j \<and> j < k \<longrightarrow> numbered (stem f) j (suffix f) \<in> taken)"
      using k tk by metis
    have a2: "renamed_files (snd (plan_images a (pre @ [x]) s)) =
          renamed_files (snd ?acc) @ [(f, ?fin, a)]"
      and a3: "total_renamed (snd (plan_images a (pre @ [x]) s)) = total_renamed (snd ?acc) + 1"
      using none u by (simp_all add: plan_images_snoc renames_plan_step assms(2)[symmetric])
    show "(\<exists>k\<ge>2. ?fin = numbered (stem f) k (suffix f) \<and> ?fin \<notin> taken \<and>
           (\<forall>j. 2 \<le> j \<and> j < k \<longrightarrow> numbered (stem f) j (suffix f) \<in> taken)) \<and>
        renamed_files (snd (plan_images a (pre @ [x]) s)) =
          renamed_files (snd ?acc) @ [(f, ?fin, a)] \<and>
        total_renamed (snd (plan_images a (pre @ [x]) s)) = total_renamed (snd ?acc) + 1"
      using a1 a2 a3 by blast
  qed
  show ?thesis using whole keep ren by blast
qed

theorem collision_renaming_witness:
  "unique_id_of (length [example_image ''K1'' ''a.jpg'']) (example_image ''K2'' ''a.jpg'')
     \<notin> set (album_ids [example_image ''K1'' ''a.jpg'']) \<and>
   processed_images (fst (plan_images ''Album''
       [example_image ''K1'' ''a.jpg'', example_image ''K2'' ''a.jpg''] (init_downloader [''dl''] []))) =
     [(example_image ''K1'' ''a.jpg'', ''a.jpg''), (example_image ''K2'' ''a.jpg'', ''a_2.jpg'')] \<and>
   renamed_files (snd (plan_images ''Album''
       [example_image ''K1'' ''a.jpg'', example_image ''K2'' ''a.jpg''] (init_downloader [''dl''] []))) =
     [(''a.jpg'', ''a_2.jpg'', ''Album'')] \<and>
   total_renamed (snd (plan_images ''Album''
       [example_image ''K1'' ''a.jpg'', example_image ''K2'' ''a.jpg''] (init_downloader [''dl''] []))) = 1"
proof -
  have h: "unique_id_of (length [example_image ''K1'' ''a.jpg'']) (example_image ''K2'' ''a.jpg'')
     \<notin> set (album_ids [example_image ''K1'' ''a.jpg''])"
    by code_simp
  have 1: "processed_images (fst (plan_images ''Album''
       [example_image ''K1'' ''a.jpg'', example_image ''K2'' ''a.jpg''] (init_downloader [''dl''] []))) =
     [(example_image ''K1'' ''a.jpg'', ''a.jpg''), (example_image ''K2'' ''a.jpg'', ''a_2.jpg'')]"
    by code_simp
  have 2: "renamed_files (snd (plan_images ''Album''
       [example_image ''K1'' ''a.jpg'', example_image ''K2'' ''a.jpg''] (init_downloader [''dl''] []))) =
     [(''a.jpg'', ''a_2.jpg'', ''Album'')]"
    by code_simp
  have 3: "total_renamed (snd (plan_images ''Album''
       [example_image ''K1'' ''a.jpg'', example_image ''K2'' ''a.jpg''] (init_downloader [''dl''] []))) = 1"
    by code_simp
  show ?thesis
    using collision_renaming[OF h refl refl, where post = "[]" and a = "''Album''"
        and s = "init_downloader [''dl''] []"] h 1 2 3
    by blast
qed

text \<open>
  Claim C3 as stated fails: after \<open>a.jpg\<close> twice, the second renamed to \<open>a_2.jpg\<close>, the
  first image whose own filename is \<open>a_2.jpg\<close> does not keep it.
\<close>

theorem first_occurrence_renamed:
  "original_filename_of 0 (example_image ''K1'' ''a.jpg'') = ''a.jpg'' \<and>
   original_filename_of 1 (example_image ''K2'' ''a.jpg'') = ''a.jpg'' \<and>
   original_filename_of 2 (example_image ''K3'' ''a_2.jpg'') = ''a_2.jpg'' \<and>
   map snd (processed_images (fst (plan_images ''Album''
       [example_image ''K1'' ''a.jpg'', example_image ''K2'' ''a.jpg'',
        example_image ''K3'' ''a_2.jpg''] (init_downloader [''dl''] [])))) =
     [''a.jpg'', ''a_2.jpg'', ''a_2_2.jpg'']"
  by code_simp

section \<open>Joining a directory and a numbered name\<close>

text \<open>
  The numbered names of one stem and suffix give pairwise different paths in a
  directory: the counter sits in one component of the parsed name. So the loop that looks
  for a free name in the quarantine directory ends.
\<close>

lemma split_on_nonempty: "split_on c xs \<noteq> []"
  by (induction xs) (auto split: list.splits)

lemma split_on_append:
  "split_on c (xs @ ys) =
     butlast (split_on c xs) @ [last (split_on c xs) @ hd (split_on c ys)] @ tl (split_on c ys)"
proof (induction xs)
  case Nil
  show ?case using split_on_nonempty[of c ys] by simp
next
  case (Cons x xs)
  show ?case
  proof (cases "x = c")
    case True
    then show ?thesis using Cons split_on_nonempty[of c xs] by simp
  next
    case False
    obtain w ws where s: "split_on c xs = w # ws"
      using split_on_nonempty[of c xs] by (cases "split_on c xs") auto
    show ?thesis using False Cons s by (cases ws) simp_all
  qed
qed

lemma split_on_plain: "c \<notin> set m \<Longrightarrow> split_on c m = [m]"
  by (induction m) auto

lemma split_on_middle:
  assumes "c \<notin> set m"
  shows "split_on c (b @ m @ e) =
     butlast (split_on c b) @ [last (split_on c b) @ m @ hd (split_on c e)] @ tl (split_on c e)"
proof -
  have "split_on c (m @ e) = [m @ hd (split_on c e)] @ tl (split_on c e)"
    using split_on_append[of c m e] split_on_plain[OF assms] by simp
  then show ?thesis using split_on_append[of c b "m @ e"] by simp
qed

lemma str_nat_nonempty: "str_nat n \<noteq> []"
  by (subst str_nat.simps) simp

lemma digit_char_not_slash: "d < 10 \<Longrightarrow> digit_char d \<noteq> CHR ''/''"
proof
  assume d: "d < 10" and e: "digit_char d = CHR ''/''"
  have "of_char (digit_char d) = (48 + d :: nat)" using d by (simp add: digit_char_def)
  moreover have "of_char CHR ''/'' = (47 :: nat)" by simp
  ultimately have "48 + d = (47 :: nat)" using e by simp
  then show False by simp
qed

lemma str_nat_no_slash: "CHR ''/'' \<notin> set (str_nat n)"
proof (induction n rule: str_nat.induct)
  case (1 n)
  show ?case
  proof (cases "n < 10")
    case True
    then show ?thesis using digit_char_not_slash[of n] by (subst str_nat.simps) auto
  next
    case False
    have "n mod 10 < 10" by simp
    then have "digit_char (n mod 10) \<noteq> CHR ''/''" by (rule digit_char_not_slash)
    then show ?thesis using False 1 by (subst str_nat.simps) auto
  qed
qed

lemma parse_numbered:
  "parse_path (numbered b c e) =
     ((if b \<noteq> [] \<and> hd b = CHR ''/'' then [''/''] else []) @
      filter (\<lambda>x. x \<noteq> [] \<and> x \<noteq> ''.'') (butlast (split_on CHR ''/'' b))) @
     [last (split_on CHR ''/'' b) @ (''_'' @ str_nat c) @ hd (split_on CHR ''/'' e)] @
     filter (\<lambda>x. x \<noteq> [] \<and> x \<noteq> ''.'') (tl (split_on CHR ''/'' e))"
proof -
  let ?m = "''_'' @ str_nat c"
  have m: "CHR ''/'' \<notin> set ?m" using str_nat_no_slash[of c] by simp
  have s: "split_on CHR ''/'' (b @ ?m @ e) =
     butlast (split_on CHR ''/'' b) @ [last (split_on CHR ''/'' b) @ ?m @ hd (split_on CHR ''/'' e)]
       @ tl (split_on CHR ''/'' e)"
    by (rule split_on_middle[OF m])
  have n: "numbered b c e = b @ ?m @ e" by (simp add: numbered_def)
  have mid: "last (split_on CHR ''/'' b) @ ?m @ hd (split_on CHR ''/'' e) \<noteq> []"
    "last (split_on CHR ''/'' b) @ ?m @ hd (split_on CHR ''/'' e) \<noteq> ''.''"
    by (auto simp: append_eq_Cons_conv Cons_eq_append_conv)
  have h: "(b @ ?m @ e \<noteq> [] \<and> hd (b @ ?m @ e) = CHR ''/'') = (b \<noteq> [] \<and> hd b = CHR ''/'')"
    by (cases b) auto
  show ?thesis
    unfolding parse_path_def n s h using mid by simp
qed

lemma joinpath_numbered:
  "\<exists>X L H Q. \<forall>c. joinpath dir (numbered b c e) = X @ [L @ ''_'' @ str_nat c @ H] @ Q"
proof -
  let ?P = "(if b \<noteq> [] \<and> hd b = CHR ''/'' then [''/''] else []) @
      filter (\<lambda>x. x \<noteq> [] \<and> x \<noteq> ''.'') (butlast (split_on CHR ''/'' b))"
  let ?L = "last (split_on CHR ''/'' b)"
  let ?H = "hd (split_on CHR ''/'' e)"
  let ?Q = "filter (\<lambda>x. x \<noteq> [] \<and> x \<noteq> ''.'') (tl (split_on CHR ''/'' e))"
  have p: "parse_path (numbered b c e) = ?P @ [?L @ ''_'' @ str_nat c @ ?H] @ ?Q" for c
    using parse_numbered[of b c e] by simp
  have notroot: "?L @ ''_'' @ str_nat c @ ?H \<noteq> ''/''" for c
    by (auto simp: append_eq_Cons_conv Cons_eq_append_conv)
  have abs: "is_absolute (parse_path (numbered b c e)) = (?P \<noteq> [] \<and> hd ?P = ''/'')" for c
    unfolding p is_absolute_def using notroot[of c] by (cases ?P) auto
  show ?thesis
  proof (cases "?P \<noteq> [] \<and> hd ?P = ''/''")
    case True
    have "joinpath dir (numbered b c e) = ?P @ [?L @ ''_'' @ str_nat c @ ?H] @ ?Q" for c
    proof -
      have "is_absolute (parse_path (numbered b c e))" using abs[of c] True by blast
      then have "joinpath dir (numbered b c e) = parse_path (numbered b c e)"
        by (simp add: joinpath_def join_path_def)
      then show ?thesis by (simp only: p)
    qed
    then show ?thesis by blast
  next
    case False
    have "joinpath dir (numbered b c e) = (dir @ ?P) @ [?L @ ''_'' @ str_nat c @ ?H] @ ?Q" for c
    proof -
      have "\<not> is_absolute (parse_path (numbered b c e))" using abs[of c] False by blast
      then have "joinpath dir (numbered b c e) = dir @ parse_path (numbered b c e)"
        by (simp add: joinpath_def join_path_def)
      then show ?thesis by (simp only: p append_assoc)
    qed
    then show ?thesis by blast
  qed
qed

lemma joinpath_numbered_inj:
  "joinpath dir (numbered b m e) = joinpath dir (numbered b n e) \<Longrightarrow> m = n"
proof -
  obtain X L H Q where j: "\<And>c. joinpath dir (numbered b c e) = X @ [L @ ''_'' @ str_nat c @ H] @ Q"
    using joinpath_numbered[of dir b e] by blast
  assume "joinpath dir (numbered b m e) = joinpath dir (numbered b n e)"
  then have "str_nat m = str_nat n" unfolding j by simp
  then show ?thesis by (rule str_nat_inj)
qed

lemma finite_existing:
  "finite {k. map_of fs (joinpath dir (numbered b k e)) \<noteq> None}"
proof -
  have "{k. map_of fs (joinpath dir (numbered b k e)) \<noteq> None} =
          (\<lambda>k. joinpath dir (numbered b k e)) -` (fst ` set fs)"
    by (auto simp: map_of_eq_None_iff)
  moreover have "finite ((\<lambda>k. joinpath dir (numbered b k e)) -` (fst ` set fs))"
    by (rule finite_vimageI) (auto intro: injI joinpath_numbered_inj)
  ultimately show ?thesis by simp
qed

lemma joinpath_numbered_nonempty:
  "joinpath dir (numbered b k e) \<noteq> []" "joinpath dir (numbered b k e) \<noteq> [''/'']"
proof -
  obtain X L H Q where j: "\<And>c. joinpath dir (numbered b c e) = X @ [L @ ''_'' @ str_nat c @ H] @ Q"
    using joinpath_numbered[of dir b e] by blast
  show "joinpath dir (numbered b k e) \<noteq> []" unfolding j by simp
  have "L @ ''_'' @ str_nat k @ H \<noteq> ''/''"
    by (auto simp: append_eq_Cons_conv Cons_eq_append_conv)
  then show "joinpath dir (numbered b k e) \<noteq> [''/'']"
    unfolding j by (auto simp: append_eq_Cons_conv Cons_eq_append_conv)
qed

section \<open>File system operations\<close>

text \<open>
  A function that can raise returns the exception or its value, together with the
  downloader as it is at that moment.
\<close>

type_synonym 'a outcome = "(exn + 'a) \<times> downloader"

definition exn_str :: "exn \<Rightarrow> string" where
  \<comment> \<open>\<open>str(e)\<close>\<close>
  "exn_str e =
     (case e of
        HTTPError status \<Rightarrow> str_nat status @ '' Error''
      | Timeout msg \<Rightarrow> msg
      | Error type_name msg \<Rightarrow> msg)"

function mkdir_parents :: "filesystem \<Rightarrow> path \<Rightarrow> exn + filesystem" where
  \<comment> \<open>\<open>p.mkdir(parents=True, exist_ok=True)\<close>\<close>
  "mkdir_parents fs p =
     (if path_exists fs p then
        (if is_dir fs p then Inr fs else Inl (Error ''FileExistsError'' (str_path p)))
      else if is_dir fs (path_parent p) then Inr ((p, Dir) # fs)
      else if path_exists fs (path_parent p) then Inl (Error ''NotADirectoryError'' (str_path p))
      else (case mkdir_parents fs (path_parent p) of
              Inl e \<Rightarrow> Inl e
            | Inr fs' \<Rightarrow> Inr ((p, Dir) # fs')))"
  by pat_completeness auto
termination
proof (relation "measure (\<lambda>(fs, p). length p)")
  show "wf (measure (\<lambda>(fs, p). length p))" by simp
next
  fix fs :: filesystem and p :: path
  assume "\<not> path_exists fs p"
  then have "p \<noteq> []" "p \<noteq> [''/'']" by (auto simp: path_exists_def)
  then show "((fs, path_parent p), (fs, p)) \<in> measure (\<lambda>(fs, p). length p)"
    by (simp add: path_parent_def)
qed

declare mkdir_parents.simps [simp del]

definition open_write :: "filesystem \<Rightarrow> path \<Rightarrow> string \<Rightarrow> exn + filesystem" where
  \<comment> \<open>\<open>open(p, 'w')\<close>, the writes and the close: the file then holds \<open>content\<close>\<close>
  "open_write fs p content =
     (if is_dir fs p then Inl (Error ''IsADirectoryError'' (str_path p))
      else if is_dir fs (path_parent p) then Inr ((p, File content) # fs)
      else if path_exists fs (path_parent p) then Inl (Error ''NotADirectoryError'' (str_path p))
      else Inl (Error ''FileNotFoundError'' (str_path p)))"

definition unlink :: "filesystem \<Rightarrow> path \<Rightarrow> exn + filesystem" where
  "unlink fs p =
     (if is_dir fs p then Inl (Error ''IsADirectoryError'' (str_path p))
      else if path_exists fs p then Inr (filter (\<lambda>(q, n). q \<noteq> p) fs)
      else Inl (Error ''FileNotFoundError'' (str_path p)))"

definition with_suffix :: "path \<Rightarrow> string \<Rightarrow> exn + path" where
  \<comment> \<open>\<open>p.with_suffix(suffix)\<close>, for a suffix that starts with a dot\<close>
  "with_suffix p new_suffix =
     (if path_name p = [] then Inl (Error ''ValueError'' (str_path p @ '' has an empty name''))
      else Inr (butlast p @ [name_stem (path_name p) @ new_suffix]))"

function skipped_counter :: "filesystem \<Rightarrow> path \<Rightarrow> string \<Rightarrow> string \<Rightarrow> nat \<Rightarrow> nat" where
  "skipped_counter fs skipped_album_dir base_name extension counter =
     (if path_exists fs (joinpath skipped_album_dir (numbered base_name counter extension))
      then skipped_counter fs skipped_album_dir base_name extension (counter + 1)
      else counter)"
  by pat_completeness auto
termination
proof (relation "measure (\<lambda>(fs, d, b, e, c). card {k. c \<le> k \<and> map_of fs (joinpath d (numbered b k e)) \<noteq> None})")
  show "wf (measure (\<lambda>(fs, d, b, e, c). card {k. c \<le> k \<and> map_of fs (joinpath d (numbered b k e)) \<noteq> None}))"
    by simp
next
  fix fs :: filesystem and skipped_album_dir :: path and base_name extension :: string
    and counter :: nat
  assume "path_exists fs (joinpath skipped_album_dir (numbered base_name counter extension))"
  then have a: "map_of fs (joinpath skipped_album_dir (numbered base_name counter extension)) \<noteq> None"
    using joinpath_numbered_nonempty[of skipped_album_dir base_name counter extension]
    by (simp add: path_exists_def)
  let ?A = "\<lambda>c. {k. c \<le> k \<and> map_of fs (joinpath skipped_album_dir (numbered base_name k extension)) \<noteq> None}"
  have fin: "finite (?A counter)"
    by (rule finite_subset[OF _ finite_existing[of fs skipped_album_dir base_name extension]]) auto
  have "counter \<in> ?A counter" "counter \<notin> ?A (counter + 1)" "?A (counter + 1) \<subseteq> ?A counter"
    using a by auto
  then have "?A (counter + 1) \<subset> ?A counter" by blast
  then have "card (?A (counter + 1)) < card (?A counter)"
    by (rule psubset_card_mono[OF fin])
  then show "((fs, skipped_album_dir, base_name, extension, counter + 1),
              (fs, skipped_album_dir, base_name, extension, counter))
        \<in> measure (\<lambda>(fs, d, b, e, c). card {k. c \<le> k \<and> map_of fs (joinpath d (numbered b k e)) \<noteq> None})"
    by simp
qed

declare skipped_counter.simps [simp del]

section \<open>The remote side\<close>

text \<open>
  The API answers a request (a URL and its query parameters) by raising, or by a status
  code and a body. A body is not JSON, or JSON without the key \<open>Response\<close>, or holds a
  response object, of which the program reads the keys below (an absent list is empty).
  A streamed download raises at once, or has a status code and delivers chunks, and may
  raise after them. The remote side answers one request the same way each time.
\<close>

record response_obj =
  AlbumImage :: "image_info list"
  NextPage :: "string option"
  Album :: "album_info list"
  Folder :: "folder_info list"
  ImageSizeDetails :: "(string \<times> string) list"
  LargestImage_Url :: "string option"

datatype json_body = Not_json | No_response | Response response_obj

datatype api_result = Raises exn | Reply nat json_body

datatype transfer = Get_raises exn | Stream nat "string list" "exn option"

record remote =
  api :: "string \<Rightarrow> (string \<times> string) list \<Rightarrow> api_result"
  cdn :: "string \<Rightarrow> transfer"

definition api_host :: string where
  "api_host = ''https://api.smugmug.com''"

section \<open>get_image_download_url\<close>

definition uri_of :: "uri_ref option \<Rightarrow> string" where
  \<comment> \<open>\<open>uris.get(key, {})\<close>, then \<open>.get('Uri', '')\<close> when it is an object\<close>
  "uri_of r =
     (case r of
        None \<Rightarrow> []
      | Some (Uri_str u) \<Rightarrow> u
      | Some (Uri_obj u) \<Rightarrow> dict_get [] u)"

definition size_keys :: "string list" where
  "size_keys = [''ImageSizeOriginal'', ''ImageSizeX5Large'', ''ImageSizeX4Large'',
                ''ImageSizeX3Large'', ''ImageSizeX2Large'', ''ImageSizeXLarge'',
                ''ImageSizeLarge'']"

fun first_size_url :: "(string \<times> string) list \<Rightarrow> string list \<Rightarrow> string option" where
  "first_size_url sizes [] = None"
| "first_size_url sizes (size_key # rest) =
     (case map_of sizes size_key of
        Some url \<Rightarrow> (if url \<noteq> [] then Some url else first_size_url sizes rest)
      | None \<Rightarrow> first_size_url sizes rest)"

definition url_from_size_details :: "remote \<Rightarrow> image_info \<Rightarrow> string option" where
  "url_from_size_details env img =
     (let size_details_uri = uri_of (Uris_ImageSizeDetails img)
      in if size_details_uri \<noteq> [] then
           (case api env (api_host @ size_details_uri) [] of
              Raises e \<Rightarrow> None
            | Reply status body \<Rightarrow>
                (if status = 200 then
                   (case body of
                      Response r \<Rightarrow> first_size_url (ImageSizeDetails r) size_keys
                    | _ \<Rightarrow> None)
                 else None))
         else None)"

definition url_from_largest_image :: "remote \<Rightarrow> image_info \<Rightarrow> string option" where
  "url_from_largest_image env img =
     (let largest_image_uri = uri_of (Uris_LargestImage img)
      in if largest_image_uri \<noteq> [] then
           (case api env (api_host @ largest_image_uri) [] of
              Raises e \<Rightarrow> None
            | Reply status body \<Rightarrow>
                (if status = 200 then
                   (case body of
                      Response r \<Rightarrow>
                        (case LargestImage_Url r of
                           Some url \<Rightarrow> (if url \<noteq> [] then Some url else None)
                         | None \<Rightarrow> None)
                    | _ \<Rightarrow> None)
                 else None))
         else None)"

definition get_image_download_url :: "remote \<Rightarrow> image_info \<Rightarrow> string" where
  \<comment> \<open>the empty string stands for every result that \<open>if not image_url\<close> rejects\<close>
  "get_image_download_url env img =
     (case url_from_size_details env img of
        Some url \<Rightarrow> url
      | None \<Rightarrow>
          (let archived_uri = dict_get [] (ArchivedUri img)
           in if archived_uri \<noteq> [] then archived_uri
              else (case url_from_largest_image env img of
                      Some url \<Rightarrow> url
                    | None \<Rightarrow> uri_of (Uris_ImageDownload img))))"

section \<open>The sidecar writers\<close>

definition newline :: string where
  "newline = [CHR 0x0A]"

definition labeled_line :: "string \<Rightarrow> string \<Rightarrow> string" where
  \<comment> \<open>\<open>if value: f.write(f"{label}: {value}\n")\<close>\<close>
  "labeled_line label v = (if v \<noteq> [] then label @ '': '' @ v @ newline else [])"

definition save_album_metadata :: "album_info \<Rightarrow> path \<Rightarrow> downloader \<Rightarrow> downloader" where
  "save_album_metadata album album_path s =
     (let album_name = dict_get ''album'' (AlbumName album);
          metadata_filename =
            sanitize_filename (replace_char CHR '' '' CHR ''_'' album_name) @ ''.txt'';
          metadata_path = joinpath album_path metadata_filename
      in if path_exists (files s) metadata_path then s
         else
           (let name = dict_get [] (AlbumName album);
                description = dict_get [] (Description album);
                keywords = dict_get [] (AlbumKeywords album)
            in if name = [] \<and> description = [] \<and> keywords = [] then s
               else
                 (case open_write (files s) metadata_path
                         (labeled_line ''Gallery Title'' name @
                          labeled_line ''Gallery Description'' description @
                          labeled_line ''Keywords'' keywords) of
                    Inr fs' \<Rightarrow>
                      s\<lparr>files := fs',
                        total_album_metadata_saved := total_album_metadata_saved s + 1\<rparr>
                  | Inl e \<Rightarrow>
                      log (''  [Warning: Failed to save album metadata: '' @ exn_str e @ '']'') s)))"

definition save_image_metadata :: "image_info \<Rightarrow> path \<Rightarrow> downloader \<Rightarrow> unit outcome" where
  "save_image_metadata img image_path s =
     (case with_suffix image_path ''.txt'' of
        Inl e \<Rightarrow> (Inl e, s)
      | Inr metadata_path \<Rightarrow>
          (if path_exists (files s) metadata_path then (Inr (), s)
           else
             (let title = dict_get [] (Title img);
                  caption = dict_get [] (Caption img);
                  keywords = dict_get [] (ImageKeywords img)
              in if title = [] \<and> caption = [] \<and> keywords = [] then (Inr (), s)
                 else
                   (case open_write (files s) metadata_path
                           (labeled_line ''Title'' title @
                            labeled_line ''Caption'' caption @
                            labeled_line ''Keywords'' keywords) of
                      Inr fs' \<Rightarrow>
                        (Inr (), s\<lparr>files := fs',
                                   total_metadata_saved := total_metadata_saved s + 1\<rparr>)
                    | Inl e \<Rightarrow>
                        (Inr (), log (''  [Warning: Failed to save metadata for '' @
                                       path_name image_path @ '': '' @ exn_str e @ '']'') s)))))"

section \<open>download_image\<close>

definition resolve_destination ::
  "image_info \<Rightarrow> path \<Rightarrow> string \<Rightarrow> downloader \<Rightarrow> path outcome" where
  \<comment> \<open>the block \<open>if download_path.exists()\<close>: the path that will be written\<close>
  "resolve_destination img download_path album_name s =
     (let filename = path_name download_path
      in if path_exists (files s) download_path then
           (let image_key = dict_get ''no-key'' (ImageKey img);
                skipped_dir = joinpath (base_path s) ''Skipped_Images''
            in case relative_to (path_parent download_path) (base_path s) of
                 None \<Rightarrow>
                   (Inl (Error ''ValueError''
                          (str_path (path_parent download_path) @ '' is not in the subpath of '' @
                           str_path (base_path s))), s)
               | Some album_subfolder \<Rightarrow>
                   (let skipped_album_dir = join_path skipped_dir album_subfolder
                    in case mkdir_parents (files s) skipped_album_dir of
                         Inl e \<Rightarrow> (Inl e, s)
                       | Inr fs1 \<Rightarrow>
                           (let candidate = joinpath skipped_album_dir filename;
                                new_path =
                                  (if path_exists fs1 candidate then
                                     (let base_name = stem filename;
                                          extension = suffix filename;
                                          counter = skipped_counter fs1 skipped_album_dir
                                                      base_name extension 2
                                      in joinpath skipped_album_dir
                                           (numbered base_name counter extension))
                                   else candidate)
                            in (Inr new_path,
                                log (''    [File exists, saving to Skipped_Images: '' @ filename @
                                       '' '' @ arrow @ '' '' @ path_name new_path @ '']'')
                                  (s\<lparr>files := fs1,
                                     total_skipped := total_skipped s + 1,
                                     skipped_log := skipped_log s @
                                       [(filename, album_name, image_key,
                                         str_path download_path, str_path new_path)]\<rparr>)))))
         else (Inr download_path, s))"

definition failure_reason :: "exn \<Rightarrow> string" where
  \<comment> \<open>the reason each of the three handlers computes\<close>
  "failure_reason e =
     (case e of
        HTTPError status \<Rightarrow> ''HTTP '' @ str_nat status @ '' error''
      | Timeout msg \<Rightarrow> ''Download timeout (>30s)''
      | Error type_name msg \<Rightarrow> type_name @ '': '' @ msg)"

definition record_failure ::
  "string \<Rightarrow> string \<Rightarrow> exn \<Rightarrow> path \<Rightarrow> downloader \<Rightarrow> bool outcome" where
  \<comment> \<open>the body shared by the three handlers\<close>
  "record_failure filename album_name e download_path s =
     (let reason = failure_reason e;
          s1 = log (''  [Error downloading '' @ filename @ '': '' @ reason @ '']'') s;
          s2 = s1\<lparr>failed_downloads := failed_downloads s1 @ [(filename, album_name, reason)]\<rparr>
      in if path_exists (files s2) download_path then
           (case unlink (files s2) download_path of
              Inl e' \<Rightarrow> (Inl e', s2)
            | Inr fs' \<Rightarrow> (Inr False, s2\<lparr>files := fs'\<rparr>))
         else (Inr False, s2))"

definition raise_for_status :: "nat \<Rightarrow> bool" where
  \<comment> \<open>whether \<open>r.raise_for_status()\<close> raises\<close>
  "raise_for_status status \<longleftrightarrow> 400 \<le> status \<and> status < 600"

definition no_url_reason :: string where
  "no_url_reason =
     ''No download URL found (no ImageSizeOriginal, ArchivedUri, LargestImage, or ImageDownload)''"

definition fetch_and_store ::
  "remote \<Rightarrow> image_info \<Rightarrow> string \<Rightarrow> string \<Rightarrow> path \<Rightarrow> downloader \<Rightarrow> bool outcome" where
  \<comment> \<open>\<open>download_image\<close> from \<open>image_url = ...\<close> on, for the path to write\<close>
  "fetch_and_store env img filename album_name download_path s =
     (let image_url = get_image_download_url env img
      in if image_url = [] then
           (let s1 = log (''  [Warning: '' @ no_url_reason @ '' for '' @ filename @ '']'') s
            in (Inr False,
                s1\<lparr>failed_downloads := failed_downloads s1 @
                      [(filename, album_name, no_url_reason)]\<rparr>))
         else
           (case cdn env image_url of
              Get_raises e \<Rightarrow> record_failure filename album_name e download_path s
            | Stream status chunks stream_error \<Rightarrow>
                (if raise_for_status status then
                   record_failure filename album_name (HTTPError status) download_path s
                 else
                   (case open_write (files s) download_path (concat chunks) of
                      Inl e \<Rightarrow> record_failure filename album_name e download_path s
                    | Inr fs' \<Rightarrow>
                        (case stream_error of
                           Some e \<Rightarrow>
                             record_failure filename album_name e download_path
                               (s\<lparr>files := fs'\<rparr>)
                         | None \<Rightarrow>
                             (case save_image_metadata img download_path (s\<lparr>files := fs'\<rparr>) of
                                (Inl e, s1) \<Rightarrow>
                                  record_failure filename album_name e download_path s1
                              | (Inr u, s1) \<Rightarrow>
                                  (Inr True,
                                   s1\<lparr>total_downloaded := total_downloaded s1 + 1\<rparr>)))))))"

definition download_image ::
  "remote \<Rightarrow> image_info \<Rightarrow> path \<Rightarrow> string \<Rightarrow> downloader \<Rightarrow> bool outcome" where
  "download_image env img download_path album_name s =
     (case resolve_destination img download_path album_name s of
        (Inl e, s1) \<Rightarrow> (Inl e, s1)
      | (Inr new_path, s1) \<Rightarrow>
          fetch_and_store env img (path_name download_path) album_name new_path s1)"

section \<open>Effects of download_image on the file system and the logs\<close>

definition preserves :: "filesystem \<Rightarrow> filesystem \<Rightarrow> bool" where
  \<comment> \<open>every path that exists keeps its node\<close>
  "preserves fs fs' \<longleftrightarrow> (\<forall>q. path_exists fs q \<longrightarrow> map_of fs' q = map_of fs q)"

lemma preserves_refl: "preserves fs fs"
  by (simp add: preserves_def)

lemma preserves_exists: "preserves fs fs' \<Longrightarrow> path_exists fs q \<Longrightarrow> path_exists fs' q"
  by (auto simp: preserves_def path_exists_def)

lemma preserves_trans: "preserves fs fs1 \<Longrightarrow> preserves fs1 fs2 \<Longrightarrow> preserves fs fs2"
  unfolding preserves_def using preserves_exists[unfolded preserves_def] by metis

lemma preserves_new: "\<not> path_exists fs p \<Longrightarrow> preserves fs ((p, n) # fs)"
  by (auto simp: preserves_def)

lemma map_of_filter_ne:
  "map_of (filter (\<lambda>(q, n). q \<noteq> p) fs) q = (if q = p then None else map_of fs q)"
  by (induction fs) auto

lemma unlink_result:
  "unlink fs p = Inr fs' \<Longrightarrow> map_of fs' q = (if q = p then None else map_of fs q)"
  by (auto simp: unlink_def map_of_filter_ne split: if_splits)

lemma unlink_file: "map_of fs p = Some (File c) \<Longrightarrow> p \<noteq> [] \<Longrightarrow> p \<noteq> [''/''] \<Longrightarrow>
  unlink fs p = Inr (filter (\<lambda>(q, n). q \<noteq> p) fs)"
  by (simp add: unlink_def is_dir_def path_exists_def)

lemma open_write_result:
  "open_write fs p c = Inr fs' \<Longrightarrow> fs' = (p, File c) # fs \<and> p \<noteq> [] \<and> p \<noteq> [''/'']"
  by (auto simp: open_write_def is_dir_def split: if_splits)

lemma mkdir_parents_preserves: "mkdir_parents fs p = Inr fs' \<Longrightarrow> preserves fs fs'"
proof (induction fs p arbitrary: fs' rule: mkdir_parents.induct)
  case (1 fs p)
  show ?case
  proof (cases "path_exists fs p")
    case True
    then show ?thesis using "1.prems"
      by (subst (asm) mkdir_parents.simps) (auto simp: preserves_refl split: if_splits)
  next
    case False
    show ?thesis
    proof (cases "is_dir fs (path_parent p)")
      case True
      then have "fs' = (p, Dir) # fs" using False "1.prems"
        by (subst (asm) mkdir_parents.simps) simp
      then show ?thesis using False by (simp add: preserves_new)
    next
      case nd: False
      then have ne: "\<not> path_exists fs (path_parent p)" using False "1.prems"
        by (subst (asm) mkdir_parents.simps) (auto split: if_splits)
      then obtain fs1 where r: "mkdir_parents fs (path_parent p) = Inr fs1" "fs' = (p, Dir) # fs1"
        using False nd "1.prems"
        by (subst (asm) mkdir_parents.simps) (auto split: sum.splits)
      have "preserves fs fs1" using "1.IH"[OF False nd ne r(1)] .
      then show ?thesis using r(2) False by (auto simp: preserves_def)
    qed
  qed
qed

lemma mkdir_parents_is_dir: "mkdir_parents fs p = Inr fs' \<Longrightarrow> is_dir fs' p"
  by (subst (asm) mkdir_parents.simps) (auto simp: is_dir_def split: if_splits sum.splits)

lemma mkdir_parents_changed:
  "mkdir_parents fs p = Inr fs' \<Longrightarrow> map_of fs' q \<noteq> map_of fs q \<Longrightarrow>
     take (length q) p = q \<and> \<not> path_exists fs q \<and> map_of fs' q = Some Dir"
proof (induction fs p arbitrary: fs' rule: mkdir_parents.induct)
  case (1 fs p)
  show ?case
  proof (cases "path_exists fs p")
    case True
    then show ?thesis using "1.prems"
      by (subst (asm) mkdir_parents.simps) (auto split: if_splits)
  next
    case False
    then have pne: "p \<noteq> []" "p \<noteq> [''/'']" by (auto simp: path_exists_def)
    show ?thesis
    proof (cases "is_dir fs (path_parent p)")
      case True
      then have "fs' = (p, Dir) # fs" using False "1.prems"
        by (subst (asm) mkdir_parents.simps) simp
      then show ?thesis using False "1.prems"(2) by (auto split: if_splits)
    next
      case nd: False
      then have ne: "\<not> path_exists fs (path_parent p)" using False "1.prems"
        by (subst (asm) mkdir_parents.simps) (auto split: if_splits)
      then obtain fs1 where r: "mkdir_parents fs (path_parent p) = Inr fs1" "fs' = (p, Dir) # fs1"
        using False nd "1.prems"
        by (subst (asm) mkdir_parents.simps) (auto split: sum.splits)
      show ?thesis
      proof (cases "q = p")
        case True
        then show ?thesis using False r(2) by simp
      next
        case qp: False
        then have "map_of fs1 q \<noteq> map_of fs q" using "1.prems"(2) r(2) by simp
        then have h: "take (length q) (path_parent p) = q \<and> \<not> path_exists fs q \<and> map_of fs1 q = Some Dir"
          using "1.IH"[OF False nd ne r(1)] by blast
        have "path_parent p = butlast p" using pne by (simp add: path_parent_def)
        then have "take (length q) (butlast p) = q" using h by simp
        then have "take (length q) p = q"
          by (metis butlast_conv_take length_take min.absorb2 nat_le_linear take_all take_take min.commute)
        then show ?thesis using h qp r(2) by simp
      qed
    qed
  qed
qed

lemma skipped_counter_free:
  "\<not> path_exists fs (joinpath d (numbered b (skipped_counter fs d b e c) e))"
  by (induction fs d b e c rule: skipped_counter.induct)
     (subst skipped_counter.simps, simp)

lemma skipped_counter_ge: "c \<le> skipped_counter fs d b e c"
  by (induction fs d b e c rule: skipped_counter.induct)
     (subst skipped_counter.simps, auto simp: Suc_le_eq less_imp_le)

lemma skipped_counter_least:
  "c \<le> k \<Longrightarrow> k < skipped_counter fs d b e c \<Longrightarrow> path_exists fs (joinpath d (numbered b k e))"
proof (induction fs d b e c rule: skipped_counter.induct)
  case (1 fs d b e c)
  show ?case
  proof (cases "path_exists fs (joinpath d (numbered b c e))")
    case True
    show ?thesis
    proof (cases "k = c")
      case True
      then show ?thesis using \<open>path_exists fs (joinpath d (numbered b c e))\<close> by simp
    next
      case False
      then have "c + 1 \<le> k" using 1(2) by simp
      moreover have "k < skipped_counter fs d b e (c + 1)"
        using 1(3) True by (subst (asm) skipped_counter.simps) simp
      ultimately show ?thesis using 1(1)[OF True] by simp
    qed
  next
    case False
    then have "skipped_counter fs d b e c = c" by (subst skipped_counter.simps) simp
    then show ?thesis using 1(2,3) by simp
  qed
qed

definition quarantine_path :: "filesystem \<Rightarrow> path \<Rightarrow> string \<Rightarrow> path" where
  \<comment> \<open>the path \<open>download_image\<close> writes instead of an existing one, in the quarantine directory\<close>
  "quarantine_path fs skipped_album_dir filename =
     (if path_exists fs (joinpath skipped_album_dir filename) then
        joinpath skipped_album_dir
          (numbered (stem filename)
             (skipped_counter fs skipped_album_dir (stem filename) (suffix filename) 2)
             (suffix filename))
      else joinpath skipped_album_dir filename)"

lemma quarantine_path_free: "\<not> path_exists fs (quarantine_path fs d f)"
  by (simp add: quarantine_path_def skipped_counter_free)

lemma resolve_fresh:
  "\<not> path_exists (files s) p \<Longrightarrow> resolve_destination img p a s = (Inr p, s)"
  by (simp add: resolve_destination_def)

lemma resolve_existing:
  assumes "path_exists (files s) p"
    and "relative_to (path_parent p) (base_path s) = Some album_subfolder"
    and "mkdir_parents (files s)
           (join_path (joinpath (base_path s) ''Skipped_Images'') album_subfolder) = Inr fs1"
  shows "resolve_destination img p a s =
     (Inr (quarantine_path fs1
             (join_path (joinpath (base_path s) ''Skipped_Images'') album_subfolder) (path_name p)),
      log (''    [File exists, saving to Skipped_Images: '' @ path_name p @ '' '' @ arrow @ '' '' @
             path_name (quarantine_path fs1
               (join_path (joinpath (base_path s) ''Skipped_Images'') album_subfolder)
               (path_name p)) @ '']'')
        (s\<lparr>files := fs1, total_skipped := total_skipped s + 1,
           skipped_log := skipped_log s @
             [(path_name p, a, dict_get ''no-key'' (ImageKey img), str_path p,
               str_path (quarantine_path fs1
                 (join_path (joinpath (base_path s) ''Skipped_Images'') album_subfolder)
                 (path_name p)))]\<rparr>))"
  using assms by (simp add: resolve_destination_def quarantine_path_def Let_def)

lemma resolve_raises:
  "resolve_destination img p a s = (Inl e, s1) \<Longrightarrow> s1 = s"
  by (auto simp: resolve_destination_def Let_def split: if_splits option.splits sum.splits)

lemma resolve_ok:
  assumes "resolve_destination img p a s = (Inr np, s1)"
  shows "\<not> path_exists (files s1) np \<and> preserves (files s) (files s1) \<and>
         failed_downloads s1 = failed_downloads s \<and> base_path s1 = base_path s"
proof (cases "path_exists (files s) p")
  case False
  then show ?thesis using assms by (simp add: resolve_fresh preserves_refl)
next
  case True
  then obtain rel fs1 where r: "relative_to (path_parent p) (base_path s) = Some rel"
    "mkdir_parents (files s) (join_path (joinpath (base_path s) ''Skipped_Images'') rel) = Inr fs1"
    using assms
    by (auto simp: resolve_destination_def Let_def split: option.splits sum.splits)
  show ?thesis
    using assms mkdir_parents_preserves[OF r(2)]
    unfolding resolve_existing[OF True r]
    by (auto simp: log_def quarantine_path_free)
qed

lemma record_failure_absent:
  "\<not> path_exists (files s) p \<Longrightarrow>
   record_failure f a e p s =
     (Inr False,
      (log (''  [Error downloading '' @ f @ '': '' @ failure_reason e @ '']'') s)
        \<lparr>failed_downloads := failed_downloads s @ [(f, a, failure_reason e)]\<rparr>)"
  by (simp add: record_failure_def Let_def log_def)

lemma record_failure_file:
  "map_of (files s) p = Some (File c) \<Longrightarrow> p \<noteq> [] \<Longrightarrow> p \<noteq> [''/''] \<Longrightarrow>
   record_failure f a e p s =
     (Inr False,
      (log (''  [Error downloading '' @ f @ '': '' @ failure_reason e @ '']'') s)
        \<lparr>failed_downloads := failed_downloads s @ [(f, a, failure_reason e)],
          files := filter (\<lambda>(q, n). q \<noteq> p) (files s)\<rparr>)"
  by (simp add: record_failure_def Let_def log_def unlink_file path_exists_def)

lemma save_image_metadata_effect:
  assumes "save_image_metadata img p s = (r, s1)"
  shows "preserves (files s) (files s1) \<and> failed_downloads s1 = failed_downloads s \<and>
         skipped_log s1 = skipped_log s \<and> total_skipped s1 = total_skipped s \<and>
         (\<forall>e. r = Inl e \<longrightarrow> s1 = s)"
  using assms
  by (auto simp: save_image_metadata_def Let_def log_def preserves_refl preserves_new
        dest!: open_write_result split: sum.splits if_splits)

definition transfer_failure :: "remote \<Rightarrow> string \<Rightarrow> filesystem \<Rightarrow> path \<Rightarrow> exn option" where
  \<comment> \<open>the exception that ends the transfer of a URL to a path before the image is
      complete, if there is one: from \<open>requests.get\<close>, \<open>raise_for_status\<close>, \<open>open\<close> or the
      stream, in the order of the \<open>try\<close> block\<close>
  "transfer_failure env url fs p =
     (case cdn env url of
        Get_raises e \<Rightarrow> Some e
      | Stream status chunks stream_error \<Rightarrow>
          (if raise_for_status status then Some (HTTPError status)
           else (case open_write fs p (concat chunks) of
                   Inl e \<Rightarrow> Some e
                 | Inr fs' \<Rightarrow> stream_error)))"

lemma fetch_and_store_no_url:
  "get_image_download_url env img = [] \<Longrightarrow>
   fetch_and_store env img f a p s =
     (Inr False,
      (log (''  [Warning: '' @ no_url_reason @ '' for '' @ f @ '']'') s)
        \<lparr>failed_downloads := failed_downloads s @ [(f, a, no_url_reason)]\<rparr>)"
  by (simp add: fetch_and_store_def Let_def log_def)

lemma fetch_and_store_failure:
  assumes "\<not> path_exists (files s) p"
    and "get_image_download_url env img \<noteq> []"
    and "transfer_failure env (get_image_download_url env img) (files s) p = Some e"
  shows "\<exists>s'. fetch_and_store env img f a p s = (Inr False, s') \<and>
           failed_downloads s' = failed_downloads s @ [(f, a, failure_reason e)] \<and>
           \<not> path_exists (files s') p \<and>
           total_downloaded s' = total_downloaded s"
proof (cases "cdn env (get_image_download_url env img)")
  case (Get_raises e')
  then have "e' = e" using assms(3) by (simp add: transfer_failure_def)
  then show ?thesis using assms(1,2) Get_raises
    by (simp add: fetch_and_store_def record_failure_absent log_def)
next
  case (Stream status chunks err)
  show ?thesis
  proof (cases "raise_for_status status")
    case True
    then have "e = HTTPError status" using assms(3) Stream by (simp add: transfer_failure_def)
    then show ?thesis using assms(1,2) Stream True
      by (simp add: fetch_and_store_def record_failure_absent log_def)
  next
    case False
    show ?thesis
    proof (cases "open_write (files s) p (concat chunks)")
      case (Inl e')
      then have "e' = e" using assms(3) Stream False by (simp add: transfer_failure_def)
      then show ?thesis using assms(1,2) Stream False Inl
        by (simp add: fetch_and_store_def record_failure_absent log_def)
    next
      case (Inr fs')
      then have err: "err = Some e" using assms(3) Stream False by (simp add: transfer_failure_def)
      have fs': "fs' = (p, File (concat chunks)) # files s" "p \<noteq> []" "p \<noteq> [''/'']"
        using open_write_result[OF Inr] by simp_all
      have "record_failure f a e p (s\<lparr>files := fs'\<rparr>) =
         (Inr False,
          (log (''  [Error downloading '' @ f @ '': '' @ failure_reason e @ '']'') (s\<lparr>files := fs'\<rparr>))
            \<lparr>failed_downloads := failed_downloads (s\<lparr>files := fs'\<rparr>) @ [(f, a, failure_reason e)],
              files := filter (\<lambda>(q, n). q \<noteq> p) (files (s\<lparr>files := fs'\<rparr>))\<rparr>)"
        by (rule record_failure_file[of _ _ "concat chunks"]) (simp_all add: fs')
      then show ?thesis using assms(2) Stream False Inr err fs'(2,3)
        by (simp add: fetch_and_store_def log_def path_exists_def map_of_filter_ne)
    qed
  qed
qed

lemma record_failure_effect:
  assumes "record_failure f a e p s = (r, s')"
  shows "skipped_log s' = skipped_log s \<and> total_skipped s' = total_skipped s \<and>
         (\<forall>q. q \<noteq> p \<longrightarrow> map_of (files s') q = map_of (files s) q) \<and>
         (map_of (files s') p = map_of (files s) p \<or> map_of (files s') p = None)"
proof -
  let ?s1 = "log (''  [Error downloading '' @ f @ '': '' @ failure_reason e @ '']'') s"
  let ?s2 = "?s1\<lparr>failed_downloads := failed_downloads ?s1 @ [(f, a, failure_reason e)]\<rparr>"
  have f2: "files ?s2 = files s" "skipped_log ?s2 = skipped_log s"
    "total_skipped ?s2 = total_skipped s"
    by (simp_all add: log_def)
  have unf: "record_failure f a e p s =
      (if path_exists (files ?s2) p then
         (case unlink (files ?s2) p of
            Inl e' \<Rightarrow> (Inl e', ?s2)
          | Inr fs' \<Rightarrow> (Inr False, ?s2\<lparr>files := fs'\<rparr>))
       else (Inr False, ?s2))"
    by (simp only: record_failure_def Let_def)
  show ?thesis
  proof (cases "path_exists (files s) p")
    case False
    then have "s' = ?s2" using assms unf f2(1) by simp
    then show ?thesis using f2 by simp
  next
    case True
    show ?thesis
    proof (cases "unlink (files s) p")
      case (Inl e')
      then have "s' = ?s2" using assms unf True f2(1) by simp
      then show ?thesis using f2 by simp
    next
      case (Inr fs')
      then have s': "s' = ?s2\<lparr>files := fs'\<rparr>" using assms unf True f2(1) by simp
      have "map_of fs' q = (if q = p then None else map_of (files s) q)" for q
        using unlink_result[OF Inr] .
      then show ?thesis unfolding s' using f2 by simp
    qed
  qed
qed

lemma record_failure_frame:
  assumes "record_failure f a e p s1 = (r, s')"
    and "\<not> path_exists fs p"
    and "skipped_log s1 = sl" "total_skipped s1 = ts"
    and "\<forall>q. q \<noteq> p \<longrightarrow> map_of (files s1) q = map_of fs q"
  shows "skipped_log s' = sl \<and> total_skipped s' = ts \<and> preserves fs (files s') \<and>
         (\<forall>q. map_of (files s') q \<noteq> map_of fs q \<longrightarrow> q = p)"
proof -
  note eff = record_failure_effect[OF assms(1)]
  have other: "map_of (files s') q = map_of fs q" if "q \<noteq> p" for q
  proof -
    have "map_of (files s') q = map_of (files s1) q" using eff that by blast
    also have "\<dots> = map_of fs q" using assms(5) that by blast
    finally show ?thesis .
  qed
  have pres: "preserves fs (files s')"
    unfolding preserves_def
  proof (intro allI impI)
    fix q assume "path_exists fs q"
    then have "q \<noteq> p" using assms(2) by blast
    then show "map_of (files s') q = map_of fs q" by (rule other)
  qed
  have ch: "\<forall>q. map_of (files s') q \<noteq> map_of fs q \<longrightarrow> q = p" using other by blast
  show ?thesis using eff assms(3,4) pres ch by blast
qed

lemma save_image_metadata_changed:
  assumes "save_image_metadata img p s = (r, s1)"
  shows "\<forall>q. map_of (files s1) q \<noteq> map_of (files s) q \<longrightarrow> with_suffix p ''.txt'' = Inr q"
  using assms
  by (auto simp: save_image_metadata_def Let_def log_def
        dest!: open_write_result split: sum.splits if_splits)

lemma fetch_and_store_unfold:
  "get_image_download_url env img \<noteq> [] \<Longrightarrow>
   fetch_and_store env img f a p s =
     (case cdn env (get_image_download_url env img) of
        Get_raises e \<Rightarrow> record_failure f a e p s
      | Stream status chunks stream_error \<Rightarrow>
          (if raise_for_status status then record_failure f a (HTTPError status) p s
           else
             (case open_write (files s) p (concat chunks) of
                Inl e \<Rightarrow> record_failure f a e p s
              | Inr fs' \<Rightarrow>
                  (case stream_error of
                     Some e \<Rightarrow> record_failure f a e p (s\<lparr>files := fs'\<rparr>)
                   | None \<Rightarrow>
                       (case save_image_metadata img p (s\<lparr>files := fs'\<rparr>) of
                          (Inl e, s1) \<Rightarrow> record_failure f a e p s1
                        | (Inr u, s1) \<Rightarrow>
                            (Inr True, s1\<lparr>total_downloaded := total_downloaded s1 + 1\<rparr>))))))"
  by (simp only: fetch_and_store_def Let_def if_False)

lemma fetch_and_store_effect:
  assumes "\<not> path_exists (files s) p" and "fetch_and_store env img f a p s = (r, s')"
  shows "skipped_log s' = skipped_log s \<and> total_skipped s' = total_skipped s \<and>
         preserves (files s) (files s') \<and>
         (\<forall>q. map_of (files s') q \<noteq> map_of (files s) q \<longrightarrow>
              q = p \<or> with_suffix p ''.txt'' = Inr q)"
proof -
  have rf: "skipped_log s' = skipped_log s \<and> total_skipped s' = total_skipped s \<and>
         preserves (files s) (files s') \<and>
         (\<forall>q. map_of (files s') q \<noteq> map_of (files s) q \<longrightarrow> q = p \<or> with_suffix p ''.txt'' = Inr q)"
    if "record_failure f a e p s1 = (r, s')"
      and "skipped_log s1 = skipped_log s" "total_skipped s1 = total_skipped s"
      and "\<forall>q. q \<noteq> p \<longrightarrow> map_of (files s1) q = map_of (files s) q" for e s1
    using record_failure_frame[OF that(1) assms(1) that(2,3,4)] by blast
  show ?thesis
  proof (cases "get_image_download_url env img = []")
    case True
    have "s' = (log (''  [Warning: '' @ no_url_reason @ '' for '' @ f @ '']'') s)
        \<lparr>failed_downloads := failed_downloads s @ [(f, a, no_url_reason)]\<rparr>"
      using assms(2) unfolding fetch_and_store_no_url[OF True] by simp
    then have "files s' = files s" "skipped_log s' = skipped_log s"
      "total_skipped s' = total_skipped s"
      by (simp_all add: log_def)
    then show ?thesis by (simp add: preserves_refl)
  next
    case url: False
    note unf = fetch_and_store_unfold[OF url, of f a p s]
    show ?thesis
    proof (cases "cdn env (get_image_download_url env img)")
      case (Get_raises e)
      then have "record_failure f a e p s = (r, s')"
        using assms(2) unf by simp
      then show ?thesis by (rule rf) simp_all
    next
      case (Stream status chunks err)
      show ?thesis
      proof (cases "raise_for_status status")
        case True
        then have "record_failure f a (HTTPError status) p s = (r, s')"
          using assms(2) unf Stream by simp
        then show ?thesis by (rule rf) simp_all
      next
        case False
        show ?thesis
        proof (cases "open_write (files s) p (concat chunks)")
          case (Inl e)
          then have "record_failure f a e p s = (r, s')"
            using assms(2) unf Stream False by simp
          then show ?thesis by (rule rf) simp_all
        next
          case (Inr fs')
          then have fs': "fs' = (p, File (concat chunks)) # files s"
            using open_write_result by blast
          have other: "\<forall>q. q \<noteq> p \<longrightarrow> map_of fs' q = map_of (files s) q"
            unfolding fs' by simp
          have o2: "\<forall>q. q \<noteq> p \<longrightarrow> map_of (files (s\<lparr>files := fs'\<rparr>)) q = map_of (files s) q"
            using other by simp
          show ?thesis
          proof (cases err)
            case (Some e)
            then have rec: "record_failure f a e p (s\<lparr>files := fs'\<rparr>) = (r, s')"
              using assms(2) unf Stream False Inr by simp
            show ?thesis by (rule rf[OF rec _ _ o2]) simp_all
          next
            case None
            obtain r1 s1 where sv: "save_image_metadata img p (s\<lparr>files := fs'\<rparr>) = (r1, s1)"
              by (cases "save_image_metadata img p (s\<lparr>files := fs'\<rparr>)")
            have eff: "preserves fs' (files s1)" "skipped_log s1 = skipped_log s"
              "total_skipped s1 = total_skipped s" "\<forall>e. r1 = Inl e \<longrightarrow> s1 = s\<lparr>files := fs'\<rparr>"
              using save_image_metadata_effect[OF sv] by simp_all
            have p0: "preserves (files s) fs'" unfolding fs' using assms(1) by (rule preserves_new)
            have ch: "\<forall>q. map_of (files s1) q \<noteq> map_of fs' q \<longrightarrow> with_suffix p ''.txt'' = Inr q"
              using save_image_metadata_changed[OF sv] by simp
            have res: "(case r1 of Inl e \<Rightarrow> record_failure f a e p s1
                        | Inr u \<Rightarrow> (Inr True, s1\<lparr>total_downloaded := total_downloaded s1 + 1\<rparr>)) = (r, s')"
              using assms(2) unf Stream False Inr None sv by (simp split: sum.splits)
            show ?thesis
            proof (cases r1)
              case (Inl e)
              then have "s1 = s\<lparr>files := fs'\<rparr>" using eff(4) by simp
              then have rec: "record_failure f a e p (s\<lparr>files := fs'\<rparr>) = (r, s')"
                using res Inl by simp
              show ?thesis by (rule rf[OF rec _ _ o2]) simp_all
            next
              case r1: (Inr u)
              then have s': "s' = s1\<lparr>total_downloaded := total_downloaded s1 + 1\<rparr>"
                using res by simp
              have pr: "preserves (files s) (files s1)" using p0 eff(1) by (rule preserves_trans)
              have c2: "\<forall>q. map_of (files s1) q \<noteq> map_of (files s) q \<longrightarrow>
                  q = p \<or> with_suffix p ''.txt'' = Inr q"
              proof (intro allI impI)
                fix q assume d: "map_of (files s1) q \<noteq> map_of (files s) q"
                show "q = p \<or> with_suffix p ''.txt'' = Inr q"
                proof (cases "q = p")
                  case True then show ?thesis by simp
                next
                  case False
                  then have "map_of fs' q = map_of (files s) q" using other by blast
                  then have "map_of (files s1) q \<noteq> map_of fs' q" using d by simp
                  then show ?thesis using ch by blast
                qed
              qed
              show ?thesis unfolding s' using pr c2 eff(2,3) by simp
            qed
          qed
        qed
      qed
    qed
  qed
qed

section \<open>Failed downloads and skipped destinations\<close>

definition example_remote :: "transfer \<Rightarrow> remote" where
  \<comment> \<open>a remote side whose API is unreachable and whose downloads all go one way\<close>
  "example_remote t =
     \<lparr>api = (\<lambda>url params. Raises (Error ''ConnectionError'' ''unreachable'')),
      cdn = (\<lambda>url. t)\<rparr>"

definition example_image_at :: "string \<Rightarrow> string \<Rightarrow> string \<Rightarrow> image_info" where
  \<comment> \<open>an image with a key, a filename and an archived-copy URL\<close>
  "example_image_at key name url = (example_image key name)\<lparr>ArchivedUri := Some url\<rparr>"

definition example_tree :: filesystem where
  \<comment> \<open>the download directory \<open>dl\<close> with the album directory \<open>dl/Album\<close>\<close>
  "example_tree = [([''dl'', ''Album''], Dir), ([''dl''], Dir)]"

lemma resolve_existing_ok:
  assumes "path_exists (files s) p" and "resolve_destination img p a s = (Inr q, s1)"
  shows "\<exists>rel fs1.
     relative_to (path_parent p) (base_path s) = Some rel \<and>
     mkdir_parents (files s) (join_path (joinpath (base_path s) ''Skipped_Images'') rel) = Inr fs1 \<and>
     q = quarantine_path fs1 (join_path (joinpath (base_path s) ''Skipped_Images'') rel) (path_name p) \<and>
     files s1 = fs1 \<and>
     skipped_log s1 = skipped_log s @
       [(path_name p, a, dict_get ''no-key'' (ImageKey img), str_path p, str_path q)] \<and>
     total_skipped s1 = total_skipped s + 1"
proof -
  obtain rel fs1 where r: "relative_to (path_parent p) (base_path s) = Some rel"
    "mkdir_parents (files s) (join_path (joinpath (base_path s) ''Skipped_Images'') rel) = Inr fs1"
    using assms
    by (auto simp: resolve_destination_def Let_def split: option.splits sum.splits)
  show ?thesis
    using assms(2) r unfolding resolve_existing[OF assms(1) r]
    by (auto simp: log_def)
qed

lemma resolve_counters:
  assumes "resolve_destination img p a s = (r, s1)"
  shows "total_downloaded s1 = total_downloaded s \<and> failed_downloads s1 = failed_downloads s"
  using assms
  by (auto simp: resolve_destination_def Let_def log_def split: if_splits option.splits sum.splits)

lemma download_image_resolved:
  "resolve_destination img dest a s = (Inr p, s1) \<Longrightarrow>
   download_image env img dest a s = fetch_and_store env img (path_name dest) a p s1"
  by (simp add: download_image_def)

lemma download_failure:
  assumes "resolve_destination img dest a s = (Inr p, s1)"
    and "get_image_download_url env img \<noteq> []"
    and "transfer_failure env (get_image_download_url env img) (files s1) p = Some e"
  shows "fst (download_image env img dest a s) = Inr False \<and>
         failed_downloads (snd (download_image env img dest a s)) =
           failed_downloads s @ [(path_name dest, a, failure_reason e)] \<and>
         \<not> path_exists (files (snd (download_image env img dest a s))) p \<and>
         total_downloaded (snd (download_image env img dest a s)) = total_downloaded s \<and>
         preserves (files s) (files (snd (download_image env img dest a s))) \<and>
         (\<forall>status. e = HTTPError status \<longrightarrow>
            failure_reason e = ''HTTP '' @ str_nat status @ '' error'')"
proof -
  note ok = resolve_ok[OF assms(1)]
  note cnt = resolve_counters[OF assms(1)]
  have absent: "\<not> path_exists (files s1) p" using ok by blast
  obtain s' where f: "fetch_and_store env img (path_name dest) a p s1 = (Inr False, s')"
    "failed_downloads s' = failed_downloads s1 @ [(path_name dest, a, failure_reason e)]"
    "\<not> path_exists (files s') p" "total_downloaded s' = total_downloaded s1"
    using fetch_and_store_failure[OF absent assms(2,3)] by blast
  have d: "download_image env img dest a s = (Inr False, s')"
    using download_image_resolved[OF assms(1)] f(1) by simp
  have "preserves (files s1) (files s')"
    using fetch_and_store_effect[OF absent f(1)] by blast
  then have pr: "preserves (files s) (files s')"
    using ok preserves_trans by blast
  have hr: "\<forall>status. e = HTTPError status \<longrightarrow>
            failure_reason e = ''HTTP '' @ str_nat status @ '' error''"
    by (simp add: failure_reason_def)
  show ?thesis unfolding d using f(2,3,4) cnt pr hr by simp
qed



lemma skip_recorded_resolved:
  assumes "path_exists (files s) dest"
    and "resolve_destination img dest a s = (Inr q, s1)"
  shows "skipped_log s1 = skipped_log s @
           [(path_name dest, a, dict_get ''no-key'' (ImageKey img), str_path dest, str_path q)] \<and>
         total_skipped s1 = total_skipped s + 1 \<and>
         download_image env img dest a s = fetch_and_store env img (path_name dest) a q s1 \<and>
         skipped_log (snd (download_image env img dest a s)) = skipped_log s1 \<and>
         total_skipped (snd (download_image env img dest a s)) = total_skipped s1 \<and>
         (get_image_download_url env img = [] \<longrightarrow>
            fst (download_image env img dest a s) = Inr False \<and>
            failed_downloads (snd (download_image env img dest a s)) =
              failed_downloads s @ [(path_name dest, a, no_url_reason)] \<and>
            \<not> path_exists (files (snd (download_image env img dest a s))) q) \<and>
         (get_image_download_url env img \<noteq> [] \<and>
          transfer_failure env (get_image_download_url env img) (files s1) q = Some e \<longrightarrow>
            fst (download_image env img dest a s) = Inr False \<and>
            failed_downloads (snd (download_image env img dest a s)) =
              failed_downloads s @ [(path_name dest, a, failure_reason e)] \<and>
            \<not> path_exists (files (snd (download_image env img dest a s))) q)"
proof -
  note ok = resolve_ok[OF assms(2)]
  have absent: "\<not> path_exists (files s1) q" using ok by blast
  have sk: "skipped_log s1 = skipped_log s @
           [(path_name dest, a, dict_get ''no-key'' (ImageKey img), str_path dest, str_path q)]"
    "total_skipped s1 = total_skipped s + 1"
    using resolve_existing_ok[OF assms] by auto
  have d: "download_image env img dest a s = fetch_and_store env img (path_name dest) a q s1"
    by (rule download_image_resolved[OF assms(2)])
  obtain r s' where fs: "fetch_and_store env img (path_name dest) a q s1 = (r, s')"
    by (cases "fetch_and_store env img (path_name dest) a q s1")
  have keep: "skipped_log s' = skipped_log s1" "total_skipped s' = total_skipped s1"
    using fetch_and_store_effect[OF absent fs] by simp_all
  have nourl: "fst (download_image env img dest a s) = Inr False \<and>
            failed_downloads (snd (download_image env img dest a s)) =
              failed_downloads s @ [(path_name dest, a, no_url_reason)] \<and>
            \<not> path_exists (files (snd (download_image env img dest a s))) q"
    if "get_image_download_url env img = []"
    unfolding d fetch_and_store_no_url[OF that]
    using absent ok by (simp add: log_def)
  have fail: "fst (download_image env img dest a s) = Inr False \<and>
            failed_downloads (snd (download_image env img dest a s)) =
              failed_downloads s @ [(path_name dest, a, failure_reason e)] \<and>
            \<not> path_exists (files (snd (download_image env img dest a s))) q"
    if "get_image_download_url env img \<noteq> []"
      "transfer_failure env (get_image_download_url env img) (files s1) q = Some e"
    using download_failure[OF assms(2) that] by blast
  show ?thesis
    using sk d keep nourl fail unfolding d fs by simp
qed





lemma resolve_blocked:
  assumes "path_exists (files s) dest"
    and "relative_to (path_parent dest) (base_path s) = None \<or>
         (relative_to (path_parent dest) (base_path s) = Some rel \<and>
          mkdir_parents (files s) (join_path (joinpath (base_path s) ''Skipped_Images'') rel) = Inl e')"
  shows "\<exists>e. download_image env img dest a s = (Inl e, s)"
  using assms
  by (auto simp: download_image_def resolve_destination_def Let_def)

lemma transfer_failure_cases:
  assumes "cdn env url = Get_raises e \<or>
         (\<exists>status chunks err. cdn env url = Stream status chunks err \<and>
            400 \<le> status \<and> status < 600 \<and> e = HTTPError status) \<or>
         (\<exists>status chunks err. cdn env url = Stream status chunks err \<and>
            \<not> (400 \<le> status \<and> status < 600) \<and>
            open_write fs p (concat chunks) = Inl e) \<or>
         (\<exists>status chunks fs'. cdn env url = Stream status chunks (Some e) \<and>
            \<not> (400 \<le> status \<and> status < 600) \<and>
            open_write fs p (concat chunks) = Inr fs')"
  shows "transfer_failure env url fs p = Some e"
proof -
  consider (g) "cdn env url = Get_raises e"
    | (h) status chunks err where "cdn env url = Stream status chunks err"
        "400 \<le> status" "status < 600" "e = HTTPError status"
    | (o) status chunks err where "cdn env url = Stream status chunks err"
        "\<not> (400 \<le> status \<and> status < 600)" "open_write fs p (concat chunks) = Inl e"
    | (t) status chunks fs' where "cdn env url = Stream status chunks (Some e)"
        "\<not> (400 \<le> status \<and> status < 600)" "open_write fs p (concat chunks) = Inr fs'"
    using assms by blast
  then show ?thesis
  proof cases
    case g then show ?thesis by (simp add: transfer_failure_def)
  next
    case h
    show ?thesis unfolding h(4) using h(1,2,3)
      by (simp add: transfer_failure_def raise_for_status_def)
  next
    case o
    have "\<not> raise_for_status status" using o(2) by (simp add: raise_for_status_def)
    then show ?thesis using o(1,3) by (simp add: transfer_failure_def)
  next
    case t
    have "\<not> raise_for_status status" using t(2) by (simp add: raise_for_status_def)
    then show ?thesis using t(1,3) by (simp add: transfer_failure_def)
  qed
qed

text \<open>
  Claim C10, as the code has it. Let the destination exist. When the quarantine directory
  can be set up (the destination's directory lies under the base path, and
  \<open>Skipped_Images\<close> followed by the album's relative path exists or can be created),
  the skip counter is incremented and the skip-log entry naming the destination and the
  quarantine path \<open>q\<close> is appended by the block that finds the destination existing,
  which makes no request; the URL resolution and the transfer run on the state that
  already holds them and leave them as they are. So when no URL is found, or the
  transfer fails (\<open>requests.get\<close> or the stream raises, the status is from 400 to 599,
  or the file cannot be opened), the run has both the skip event and one failure event
  for the image, and no file exists at \<open>q\<close>. When the quarantine directory cannot be set
  up, \<open>download_image\<close> raises and leaves the downloader as it was: nothing is
  recorded.
\<close>

theorem skip_recorded_before_download:
  assumes "path_exists (files s) dest"
  shows "(relative_to (path_parent dest) (base_path s) = Some rel \<and>
          mkdir_parents (files s) (join_path (joinpath (base_path s) ''Skipped_Images'') rel) = Inr fs1 \<and>
          q = quarantine_path fs1 (join_path (joinpath (base_path s) ''Skipped_Images'') rel)
                (path_name dest) \<longrightarrow>
            (\<exists>s1. resolve_destination img dest a s = (Inr q, s1) \<and>
                  files s1 = fs1 \<and>
                  skipped_log s1 = skipped_log s @
                    [(path_name dest, a, dict_get ''no-key'' (ImageKey img), str_path dest,
                      str_path q)] \<and>
                  total_skipped s1 = total_skipped s + 1 \<and>
                  download_image env img dest a s =
                    fetch_and_store env img (path_name dest) a q s1) \<and>
            skipped_log (snd (download_image env img dest a s)) =
              skipped_log s @
                [(path_name dest, a, dict_get ''no-key'' (ImageKey img), str_path dest, str_path q)] \<and>
            total_skipped (snd (download_image env img dest a s)) = total_skipped s + 1 \<and>
            (get_image_download_url env img = [] \<longrightarrow>
               fst (download_image env img dest a s) = Inr False \<and>
               failed_downloads (snd (download_image env img dest a s)) =
                 failed_downloads s @ [(path_name dest, a, no_url_reason)] \<and>
               \<not> path_exists (files (snd (download_image env img dest a s))) q) \<and>
            (get_image_download_url env img = url \<and> url \<noteq> [] \<and>
             (cdn env url = Get_raises e \<or>
              (\<exists>status chunks err. cdn env url = Stream status chunks err \<and>
                 400 \<le> status \<and> status < 600 \<and> e = HTTPError status) \<or>
              (\<exists>status chunks err. cdn env url = Stream status chunks err \<and>
                 \<not> (400 \<le> status \<and> status < 600) \<and>
                 open_write fs1 q (concat chunks) = Inl e) \<or>
              (\<exists>status chunks fs'. cdn env url = Stream status chunks (Some e) \<and>
                 \<not> (400 \<le> status \<and> status < 600) \<and>
                 open_write fs1 q (concat chunks) = Inr fs')) \<longrightarrow>
               fst (download_image env img dest a s) = Inr False \<and>
               failed_downloads (snd (download_image env img dest a s)) =
                 failed_downloads s @ [(path_name dest, a, failure_reason e)] \<and>
               \<not> path_exists (files (snd (download_image env img dest a s))) q)) \<and>
         (relative_to (path_parent dest) (base_path s) = None \<or>
          (relative_to (path_parent dest) (base_path s) = Some rel \<and>
           mkdir_parents (files s) (join_path (joinpath (base_path s) ''Skipped_Images'') rel) = Inl e')
            \<longrightarrow> (\<exists>e. download_image env img dest a s = (Inl e, s)))"
proof -
  have ok: "(\<exists>s1. resolve_destination img dest a s = (Inr q, s1) \<and>
                  files s1 = fs1 \<and>
                  skipped_log s1 = skipped_log s @
                    [(path_name dest, a, dict_get ''no-key'' (ImageKey img), str_path dest,
                      str_path q)] \<and>
                  total_skipped s1 = total_skipped s + 1 \<and>
                  download_image env img dest a s =
                    fetch_and_store env img (path_name dest) a q s1) \<and>
            skipped_log (snd (download_image env img dest a s)) =
              skipped_log s @
                [(path_name dest, a, dict_get ''no-key'' (ImageKey img), str_path dest, str_path q)] \<and>
            total_skipped (snd (download_image env img dest a s)) = total_skipped s + 1 \<and>
            (get_image_download_url env img = [] \<longrightarrow>
               fst (download_image env img dest a s) = Inr False \<and>
               failed_downloads (snd (download_image env img dest a s)) =
                 failed_downloads s @ [(path_name dest, a, no_url_reason)] \<and>
               \<not> path_exists (files (snd (download_image env img dest a s))) q) \<and>
            (get_image_download_url env img = url \<and> url \<noteq> [] \<and>
             (cdn env url = Get_raises e \<or>
              (\<exists>status chunks err. cdn env url = Stream status chunks err \<and>
                 400 \<le> status \<and> status < 600 \<and> e = HTTPError status) \<or>
              (\<exists>status chunks err. cdn env url = Stream status chunks err \<and>
                 \<not> (400 \<le> status \<and> status < 600) \<and>
                 open_write fs1 q (concat chunks) = Inl e) \<or>
              (\<exists>status chunks fs'. cdn env url = Stream status chunks (Some e) \<and>
                 \<not> (400 \<le> status \<and> status < 600) \<and>
                 open_write fs1 q (concat chunks) = Inr fs')) \<longrightarrow>
               fst (download_image env img dest a s) = Inr False \<and>
               failed_downloads (snd (download_image env img dest a s)) =
                 failed_downloads s @ [(path_name dest, a, failure_reason e)] \<and>
               \<not> path_exists (files (snd (download_image env img dest a s))) q)"
    if r: "relative_to (path_parent dest) (base_path s) = Some rel"
      "mkdir_parents (files s) (join_path (joinpath (base_path s) ''Skipped_Images'') rel) = Inr fs1"
      and q: "q = quarantine_path fs1 (join_path (joinpath (base_path s) ''Skipped_Images'') rel)
                (path_name dest)"
  proof -
    obtain s1 where res: "resolve_destination img dest a s = (Inr q, s1)"
      unfolding q resolve_existing[OF assms r] by blast
    have f1: "files s1 = fs1"
      using res unfolding q resolve_existing[OF assms r] by (auto simp: log_def)
    note old = skip_recorded_resolved[OF assms res, of env]
    note A = old[THEN conjunct1]
    note B = old[THEN conjunct2, THEN conjunct1]
    note C = old[THEN conjunct2, THEN conjunct2, THEN conjunct1]
    note D = old[THEN conjunct2, THEN conjunct2, THEN conjunct2, THEN conjunct1]
    note E = old[THEN conjunct2, THEN conjunct2, THEN conjunct2, THEN conjunct2, THEN conjunct1]
    note F = old[THEN conjunct2, THEN conjunct2, THEN conjunct2, THEN conjunct2, THEN conjunct2,
        THEN conjunct1]
    have part1: "\<exists>s1. resolve_destination img dest a s = (Inr q, s1) \<and>
                  files s1 = fs1 \<and>
                  skipped_log s1 = skipped_log s @
                    [(path_name dest, a, dict_get ''no-key'' (ImageKey img), str_path dest,
                      str_path q)] \<and>
                  total_skipped s1 = total_skipped s + 1 \<and>
                  download_image env img dest a s =
                    fetch_and_store env img (path_name dest) a q s1"
      using res f1 A B C by blast
    have part2: "skipped_log (snd (download_image env img dest a s)) =
              skipped_log s @
                [(path_name dest, a, dict_get ''no-key'' (ImageKey img), str_path dest, str_path q)]"
      "total_skipped (snd (download_image env img dest a s)) = total_skipped s + 1"
      by (rule trans[OF D A], rule trans[OF E B])
    have part3: "get_image_download_url env img = [] \<longrightarrow>
               fst (download_image env img dest a s) = Inr False \<and>
               failed_downloads (snd (download_image env img dest a s)) =
                 failed_downloads s @ [(path_name dest, a, no_url_reason)] \<and>
               \<not> path_exists (files (snd (download_image env img dest a s))) q"
      by (rule F)
    have part4: "fst (download_image env img dest a s) = Inr False \<and>
               failed_downloads (snd (download_image env img dest a s)) =
                 failed_downloads s @ [(path_name dest, a, failure_reason e)] \<and>
               \<not> path_exists (files (snd (download_image env img dest a s))) q"
      if u: "get_image_download_url env img = url" "url \<noteq> []"
        and c: "cdn env url = Get_raises e \<or>
              (\<exists>status chunks err. cdn env url = Stream status chunks err \<and>
                 400 \<le> status \<and> status < 600 \<and> e = HTTPError status) \<or>
              (\<exists>status chunks err. cdn env url = Stream status chunks err \<and>
                 \<not> (400 \<le> status \<and> status < 600) \<and>
                 open_write fs1 q (concat chunks) = Inl e) \<or>
              (\<exists>status chunks fs'. cdn env url = Stream status chunks (Some e) \<and>
                 \<not> (400 \<le> status \<and> status < 600) \<and>
                 open_write fs1 q (concat chunks) = Inr fs')"
    proof -
      have "transfer_failure env url fs1 q = Some e" using c by (rule transfer_failure_cases)
      then have tf: "transfer_failure env (get_image_download_url env img) (files s1) q = Some e"
        using u(1) f1 by simp
      have ne: "get_image_download_url env img \<noteq> []" using u by simp
      note G = skip_recorded_resolved[OF assms res, of env e, THEN conjunct2, THEN conjunct2,
          THEN conjunct2, THEN conjunct2, THEN conjunct2, THEN conjunct2]
      show ?thesis by (rule G[THEN mp, OF conjI[OF ne tf]])
    qed
    show ?thesis using part1 part2 part3 part4 by blast
  qed
  show ?thesis using ok resolve_blocked[OF assms, of rel e' env img a] by blast
qed

definition example_resumed_tree :: filesystem where
  \<comment> \<open>the example tree after a first run: \<open>dl/Album/a.jpg\<close> exists\<close>
  "example_resumed_tree = ([''dl'', ''Album'', ''a.jpg''], File ''old'') # example_tree"

definition example_blocked_tree :: filesystem where
  \<comment> \<open>the same, with a regular file in the place of the quarantine directory\<close>
  "example_blocked_tree = ([''dl'', ''Skipped_Images''], File []) # example_resumed_tree"

theorem skip_recorded_before_download_witness:
  "path_exists (files (init_downloader [''dl''] example_resumed_tree)) [''dl'', ''Album'', ''a.jpg''] \<and>
   relative_to (path_parent [''dl'', ''Album'', ''a.jpg''])
       (base_path (init_downloader [''dl''] example_resumed_tree)) = Some [''Album''] \<and>
   mkdir_parents (files (init_downloader [''dl''] example_resumed_tree))
       (join_path (joinpath (base_path (init_downloader [''dl''] example_resumed_tree))
          ''Skipped_Images'') [''Album'']) =
     Inr (([''dl'', ''Skipped_Images'', ''Album''], Dir) # ([''dl'', ''Skipped_Images''], Dir) #
          example_resumed_tree) \<and>
   skipped_log (snd (download_image (example_remote (Get_raises (Timeout ''read timed out'')))
       (example_image_at ''K1'' ''a.jpg'' ''https://photos.example/a.jpg'')
       [''dl'', ''Album'', ''a.jpg''] ''Album'' (init_downloader [''dl''] example_resumed_tree))) =
     [(''a.jpg'', ''Album'', ''K1'', ''dl/Album/a.jpg'', ''dl/Skipped_Images/Album/a.jpg'')] \<and>
   total_skipped (snd (download_image (example_remote (Get_raises (Timeout ''read timed out'')))
       (example_image_at ''K1'' ''a.jpg'' ''https://photos.example/a.jpg'')
       [''dl'', ''Album'', ''a.jpg''] ''Album'' (init_downloader [''dl''] example_resumed_tree))) = 1 \<and>
   failed_downloads (snd (download_image (example_remote (Get_raises (Timeout ''read timed out'')))
       (example_image_at ''K1'' ''a.jpg'' ''https://photos.example/a.jpg'')
       [''dl'', ''Album'', ''a.jpg''] ''Album'' (init_downloader [''dl''] example_resumed_tree))) =
     [(''a.jpg'', ''Album'', ''Download timeout (>30s)'')] \<and>
   \<not> path_exists (files (snd (download_image (example_remote (Get_raises (Timeout ''read timed out'')))
       (example_image_at ''K1'' ''a.jpg'' ''https://photos.example/a.jpg'')
       [''dl'', ''Album'', ''a.jpg''] ''Album'' (init_downloader [''dl''] example_resumed_tree))))
     [''dl'', ''Skipped_Images'', ''Album'', ''a.jpg''] \<and>
   get_image_download_url (example_remote (Get_raises (Timeout ''read timed out'')))
       (example_image ''K1'' ''a.jpg'') = [] \<and>
   failed_downloads (snd (download_image (example_remote (Get_raises (Timeout ''read timed out'')))
       (example_image ''K1'' ''a.jpg'')
       [''dl'', ''Album'', ''a.jpg''] ''Album'' (init_downloader [''dl''] example_resumed_tree))) =
     [(''a.jpg'', ''Album'', no_url_reason)] \<and>
   path_exists (files (init_downloader [''dl''] example_blocked_tree)) [''dl'', ''Album'', ''a.jpg''] \<and>
   mkdir_parents (files (init_downloader [''dl''] example_blocked_tree))
       (join_path (joinpath (base_path (init_downloader [''dl''] example_blocked_tree))
          ''Skipped_Images'') [''Album'']) =
     Inl (Error ''NotADirectoryError'' ''dl/Skipped_Images/Album'') \<and>
   snd (download_image (example_remote (Get_raises (Timeout ''read timed out'')))
       (example_image_at ''K1'' ''a.jpg'' ''https://photos.example/a.jpg'')
       [''dl'', ''Album'', ''a.jpg''] ''Album'' (init_downloader [''dl''] example_blocked_tree)) =
     init_downloader [''dl''] example_blocked_tree"
proof -
  let ?s = "init_downloader [''dl''] example_resumed_tree"
  let ?b = "init_downloader [''dl''] example_blocked_tree"
  let ?env = "example_remote (Get_raises (Timeout ''read timed out''))"
  let ?img = "example_image_at ''K1'' ''a.jpg'' ''https://photos.example/a.jpg''"
  let ?dest = "[''dl'', ''Album'', ''a.jpg'']"
  let ?q = "[''dl'', ''Skipped_Images'', ''Album'', ''a.jpg'']"
  let ?fs1 = "([''dl'', ''Skipped_Images'', ''Album''], Dir) # ([''dl'', ''Skipped_Images''], Dir) #
          example_resumed_tree"
  let ?url = "''https://photos.example/a.jpg''"
  have 1: "path_exists (files ?s) ?dest" by code_simp
  have r1: "relative_to (path_parent ?dest) (base_path ?s) = Some [''Album'']" by code_simp
  have r2: "mkdir_parents (files ?s) (join_path (joinpath (base_path ?s) ''Skipped_Images'') [''Album''])
              = Inr ?fs1"
    by code_simp
  have q: "?q = quarantine_path ?fs1 (join_path (joinpath (base_path ?s) ''Skipped_Images'') [''Album''])
                (path_name ?dest)"
    by code_simp
  have u: "get_image_download_url ?env ?img = ?url" by code_simp
  have une: "?url \<noteq> []" by simp
  have c: "cdn ?env ?url = Get_raises (Timeout ''read timed out'')"
    by (simp add: example_remote_def)
  have nu: "get_image_download_url ?env (example_image ''K1'' ''a.jpg'') = []" by code_simp
  have v: "skipped_log ?s = []" "failed_downloads ?s = []" "total_skipped ?s = 0"
    by (simp_all add: init_downloader_def)
  have w: "str_path ?dest = ''dl/Album/a.jpg''" "str_path ?q = ''dl/Skipped_Images/Album/a.jpg''"
    "path_name ?dest = ''a.jpg''" "dict_get ''no-key'' (ImageKey ?img) = ''K1''"
    "failure_reason (Timeout ''read timed out'') = ''Download timeout (>30s)''"
    by code_simp+
  have dj: "cdn ?env ?url = Get_raises (Timeout ''read timed out'') \<or>
              (\<exists>status chunks err. cdn ?env ?url = Stream status chunks err \<and>
                 400 \<le> status \<and> status < 600 \<and> Timeout ''read timed out'' = HTTPError status) \<or>
              (\<exists>status chunks err. cdn ?env ?url = Stream status chunks err \<and>
                 \<not> (400 \<le> status \<and> status < 600) \<and>
                 open_write ?fs1 ?q (concat chunks) = Inl (Timeout ''read timed out'')) \<or>
              (\<exists>status chunks fs'. cdn ?env ?url = Stream status chunks (Some (Timeout ''read timed out'')) \<and>
                 \<not> (400 \<le> status \<and> status < 600) \<and>
                 open_write ?fs1 ?q (concat chunks) = Inr fs')"
    using c by simp
  note t = skip_recorded_before_download[OF 1, where img = ?img and a = "''Album''" and env = ?env
      and rel = "[''Album'']" and ?fs1.0 = ?fs1 and q = ?q and url = ?url
      and e = "Timeout ''read timed out''", THEN conjunct1, THEN mp, OF conjI[OF r1 conjI[OF r2 q]]]
  note t2 = t[THEN conjunct2, THEN conjunct1]
  note t3 = t[THEN conjunct2, THEN conjunct2, THEN conjunct1]
  note t5 = t[THEN conjunct2, THEN conjunct2, THEN conjunct2, THEN conjunct2, THEN mp,
      OF conjI[OF u conjI[OF une dj]]]
  have a1: "skipped_log (snd (download_image ?env ?img ?dest ''Album'' ?s)) =
      [(''a.jpg'', ''Album'', ''K1'', ''dl/Album/a.jpg'', ''dl/Skipped_Images/Album/a.jpg'')]"
    using t2 by (simp add: v w)
  have a2: "total_skipped (snd (download_image ?env ?img ?dest ''Album'' ?s)) = 1"
    using t3 by (simp add: v)
  have a3: "failed_downloads (snd (download_image ?env ?img ?dest ''Album'' ?s)) =
      [(''a.jpg'', ''Album'', ''Download timeout (>30s)'')]"
    using t5[THEN conjunct2, THEN conjunct1] by (simp add: v w)
  have a4: "\<not> path_exists (files (snd (download_image ?env ?img ?dest ''Album'' ?s))) ?q"
    using t5[THEN conjunct2, THEN conjunct2] .
  have q': "?q = quarantine_path ?fs1 (join_path (joinpath (base_path ?s) ''Skipped_Images'') [''Album''])
                (path_name ?dest)"
    by (rule q)
  note n = skip_recorded_before_download[OF 1, where img = "example_image ''K1'' ''a.jpg''"
      and a = "''Album''" and env = ?env and rel = "[''Album'']" and ?fs1.0 = ?fs1 and q = ?q,
      THEN conjunct1, THEN mp, OF conjI[OF r1 conjI[OF r2 q']],
      THEN conjunct2, THEN conjunct2, THEN conjunct2, THEN conjunct1, THEN mp, OF nu]
  have b1: "failed_downloads (snd (download_image ?env (example_image ''K1'' ''a.jpg'') ?dest
              ''Album'' ?s)) = [(''a.jpg'', ''Album'', no_url_reason)]"
    using n[THEN conjunct2, THEN conjunct1] by (simp add: v w)
  have k1: "path_exists (files ?b) ?dest" by code_simp
  have k2: "relative_to (path_parent ?dest) (base_path ?b) = Some [''Album'']" by code_simp
  have k3: "mkdir_parents (files ?b) (join_path (joinpath (base_path ?b) ''Skipped_Images'') [''Album''])
              = Inl (Error ''NotADirectoryError'' ''dl/Skipped_Images/Album'')"
    by code_simp
  note blocked = skip_recorded_before_download[OF k1, where img = ?img and a = "''Album''"
      and env = ?env and rel = "[''Album'']"
      and e' = "Error ''NotADirectoryError'' ''dl/Skipped_Images/Album''",
      THEN conjunct2, THEN mp, OF disjI2[OF conjI[OF k2 k3]]]
  have b2: "snd (download_image ?env ?img ?dest ''Album'' ?b) = ?b"
    using blocked by auto
  show ?thesis using 1 r1 r2 a1 a2 a3 a4 nu b1 k1 k3 b2 by simp
qed

text \<open>
  Claim C10 as stated fails when the quarantine directory cannot be set up: with a
  regular file at \<open>dl/Skipped_Images\<close>, the destination exists and \<open>download_image\<close>
  raises from \<open>mkdir\<close>, with no skip event and the skip counter unchanged.
\<close>

theorem skip_not_recorded_when_quarantine_blocked:
  "path_exists (files (init_downloader [''dl''] example_blocked_tree)) [''dl'', ''Album'', ''a.jpg''] \<and>
   fst (download_image (example_remote (Get_raises (Timeout ''read timed out'')))
       (example_image_at ''K1'' ''a.jpg'' ''https://photos.example/a.jpg'')
       [''dl'', ''Album'', ''a.jpg''] ''Album'' (init_downloader [''dl''] example_blocked_tree)) =
     Inl (Error ''NotADirectoryError'' ''dl/Skipped_Images/Album'') \<and>
   skipped_log (snd (download_image (example_remote (Get_raises (Timeout ''read timed out'')))
       (example_image_at ''K1'' ''a.jpg'' ''https://photos.example/a.jpg'')
       [''dl'', ''Album'', ''a.jpg''] ''Album'' (init_downloader [''dl''] example_blocked_tree))) = [] \<and>
   total_skipped (snd (download_image (example_remote (Get_raises (Timeout ''read timed out'')))
       (example_image_at ''K1'' ''a.jpg'' ''https://photos.example/a.jpg'')
       [''dl'', ''Album'', ''a.jpg''] ''Album'' (init_downloader [''dl''] example_blocked_tree))) = 0"
  by code_simp

section \<open>The sidecar writers' contract\<close>

definition example_album :: "string \<Rightarrow> album_info" where
  \<comment> \<open>an album with a name and a URI only\<close>
  "example_album name =
     \<lparr>AlbumName = Some name, AlbumUri = Some ''/api/v2/album/x'', Description = None,
      AlbumKeywords = None\<rparr>"

lemma parse_plain:
  "CHR ''/'' \<notin> set x \<Longrightarrow> x \<noteq> [] \<Longrightarrow> x \<noteq> ''.'' \<Longrightarrow> parse_path x = [x]"
  by (cases x) (auto simp: parse_path_def split_on_plain)

lemma joinpath_plain:
  "CHR ''/'' \<notin> set x \<Longrightarrow> x \<noteq> [] \<Longrightarrow> x \<noteq> ''.'' \<Longrightarrow> joinpath p x = p @ [x]"
  by (auto simp: joinpath_def join_path_def is_absolute_def parse_plain)

lemma album_sidecar_path:
  "joinpath album_path (sanitize_filename n @ ''.txt'') = album_path @ [sanitize_filename n @ ''.txt'']"
proof (rule joinpath_plain)
  have "CHR ''/'' \<in> set invalid_chars" by (simp add: invalid_chars_def)
  then have "CHR ''/'' \<notin> set (sanitize_filename n)" using sanitize_no_invalid[of n] by blast
  then show "CHR ''/'' \<notin> set (sanitize_filename n @ ''.txt'')" by simp
  show "sanitize_filename n @ ''.txt'' \<noteq> []" by simp
  show "sanitize_filename n @ ''.txt'' \<noteq> ''.''"
    using sanitize_nonempty[of n] by (auto simp: append_eq_Cons_conv)
qed

lemma open_write_ok:
  "\<not> path_exists fs p \<Longrightarrow> is_dir fs (path_parent p) \<Longrightarrow> open_write fs p c = Inr ((p, File c) # fs)"
  by (auto simp: open_write_def is_dir_def path_exists_def)

lemma downloader_files_neq: "s\<lparr>files := x # files s, total_metadata_saved := n\<rparr> \<noteq> s"
proof
  assume "s\<lparr>files := x # files s, total_metadata_saved := n\<rparr> = s"
  then have "files (s\<lparr>files := x # files s, total_metadata_saved := n\<rparr>) = files s" by simp
  then show False by simp
qed

lemma downloader_files_neq': "s\<lparr>files := x # files s, total_album_metadata_saved := n\<rparr> \<noteq> s"
proof
  assume "s\<lparr>files := x # files s, total_album_metadata_saved := n\<rparr> = s"
  then have "files (s\<lparr>files := x # files s, total_album_metadata_saved := n\<rparr>) = files s" by simp
  then show False by simp
qed

lemma log_neq: "log m s \<noteq> s"
proof
  assume "log m s = s"
  then have "logged (log m s) = logged s" by simp
  then show False by (simp add: log_def)
qed

lemma save_image_metadata_cases:
  assumes "with_suffix p ''.txt'' = Inr mp"
  shows "mp = butlast p @ [name_stem (path_name p) @ ''.txt'']"
    and "path_exists (files s) mp \<or>
         (dict_get [] (Title img) = [] \<and> dict_get [] (Caption img) = [] \<and>
          dict_get [] (ImageKeywords img) = []) \<Longrightarrow>
         save_image_metadata img p s = (Inr (), s)"
    and "\<not> path_exists (files s) mp \<Longrightarrow>
         \<not> (dict_get [] (Title img) = [] \<and> dict_get [] (Caption img) = [] \<and>
            dict_get [] (ImageKeywords img) = []) \<Longrightarrow>
         is_dir (files s) (path_parent mp) \<Longrightarrow>
         save_image_metadata img p s =
           (Inr (), s\<lparr>files := (mp, File (labeled_line ''Title'' (dict_get [] (Title img)) @
                                    labeled_line ''Caption'' (dict_get [] (Caption img)) @
                                    labeled_line ''Keywords'' (dict_get [] (ImageKeywords img))))
                              # files s,
                      total_metadata_saved := total_metadata_saved s + 1\<rparr>)"
    and "\<not> path_exists (files s) mp \<Longrightarrow>
         \<not> (dict_get [] (Title img) = [] \<and> dict_get [] (Caption img) = [] \<and>
            dict_get [] (ImageKeywords img) = []) \<Longrightarrow>
         snd (save_image_metadata img p s) \<noteq> s"
proof -
  show "mp = butlast p @ [name_stem (path_name p) @ ''.txt'']"
    using assms by (auto simp: with_suffix_def split: if_splits)
  show "save_image_metadata img p s = (Inr (), s)"
    if "path_exists (files s) mp \<or>
         (dict_get [] (Title img) = [] \<and> dict_get [] (Caption img) = [] \<and>
          dict_get [] (ImageKeywords img) = [])"
    using that assms by (auto simp: save_image_metadata_def Let_def)
  show "save_image_metadata img p s =
           (Inr (), s\<lparr>files := (mp, File (labeled_line ''Title'' (dict_get [] (Title img)) @
                                    labeled_line ''Caption'' (dict_get [] (Caption img)) @
                                    labeled_line ''Keywords'' (dict_get [] (ImageKeywords img))))
                              # files s,
                      total_metadata_saved := total_metadata_saved s + 1\<rparr>)"
    if "\<not> path_exists (files s) mp"
       "\<not> (dict_get [] (Title img) = [] \<and> dict_get [] (Caption img) = [] \<and>
            dict_get [] (ImageKeywords img) = [])"
       "is_dir (files s) (path_parent mp)"
    using that assms open_write_ok[OF that(1,3)]
    by (auto simp: save_image_metadata_def Let_def)
  show "snd (save_image_metadata img p s) \<noteq> s"
    if "\<not> path_exists (files s) mp"
       "\<not> (dict_get [] (Title img) = [] \<and> dict_get [] (Caption img) = [] \<and>
            dict_get [] (ImageKeywords img) = [])"
  proof (cases "open_write (files s) mp (labeled_line ''Title'' (dict_get [] (Title img)) @
                                    labeled_line ''Caption'' (dict_get [] (Caption img)) @
                                    labeled_line ''Keywords'' (dict_get [] (ImageKeywords img)))")
    case (Inl e)
    then show ?thesis using that assms log_neq
      by (auto simp: save_image_metadata_def Let_def)
  next
    case (Inr fs')
    then have "fs' = (mp, File (labeled_line ''Title'' (dict_get [] (Title img)) @
                                    labeled_line ''Caption'' (dict_get [] (Caption img)) @
                                    labeled_line ''Keywords'' (dict_get [] (ImageKeywords img)))) # files s"
      using open_write_result by blast
    then show ?thesis using that assms Inr downloader_files_neq
      by (auto simp: save_image_metadata_def Let_def)
  qed
qed

definition album_sidecar_name :: "album_info \<Rightarrow> string" where
  \<comment> \<open>the value of \<open>metadata_filename\<close> in \<open>save_album_metadata\<close>\<close>
  "album_sidecar_name album =
     sanitize_filename (replace_char CHR '' '' CHR ''_'' (dict_get ''album'' (AlbumName album)))
       @ ''.txt''"

lemma save_album_metadata_cases:
  fixes album album_path s
  defines "mp \<equiv> album_path @ [album_sidecar_name album]"
  defines "content \<equiv> labeled_line ''Gallery Title'' (dict_get [] (AlbumName album)) @
                      labeled_line ''Gallery Description'' (dict_get [] (Description album)) @
                      labeled_line ''Keywords'' (dict_get [] (AlbumKeywords album))"
  defines "blank \<equiv> dict_get [] (AlbumName album) = [] \<and> dict_get [] (Description album) = [] \<and>
                    dict_get [] (AlbumKeywords album) = []"
  shows "path_exists (files s) mp \<or> blank \<Longrightarrow> save_album_metadata album album_path s = s"
    and "\<not> path_exists (files s) mp \<Longrightarrow> \<not> blank \<Longrightarrow> is_dir (files s) (path_parent mp) \<Longrightarrow>
         save_album_metadata album album_path s =
           s\<lparr>files := (mp, File content) # files s,
             total_album_metadata_saved := total_album_metadata_saved s + 1\<rparr>"
    and "\<not> path_exists (files s) mp \<Longrightarrow> \<not> blank \<Longrightarrow> save_album_metadata album album_path s \<noteq> s"
proof -
  have jp: "joinpath album_path
      (sanitize_filename (replace_char CHR '' '' CHR ''_'' (dict_get ''album'' (AlbumName album))) @ ''.txt'')
      = mp"
    unfolding mp_def album_sidecar_name_def by (rule album_sidecar_path)
  have unf: "save_album_metadata album album_path s =
     (if path_exists (files s) mp then s
      else if blank then s
      else (case open_write (files s) mp content of
              Inr fs' \<Rightarrow> s\<lparr>files := fs',
                            total_album_metadata_saved := total_album_metadata_saved s + 1\<rparr>
            | Inl e \<Rightarrow> log (''  [Warning: Failed to save album metadata: '' @ exn_str e @ '']'') s))"
    unfolding save_album_metadata_def Let_def jp by (simp only: content_def blank_def)
  show "save_album_metadata album album_path s = s" if "path_exists (files s) mp \<or> blank"
    using that unf by auto
  show "save_album_metadata album album_path s =
           s\<lparr>files := (mp, File content) # files s,
             total_album_metadata_saved := total_album_metadata_saved s + 1\<rparr>"
    if "\<not> path_exists (files s) mp" "\<not> blank" "is_dir (files s) (path_parent mp)"
    using that unf open_write_ok[OF that(1,3), of content] by simp
  show "save_album_metadata album album_path s \<noteq> s"
    if "\<not> path_exists (files s) mp" "\<not> blank"
  proof (cases "open_write (files s) mp content")
    case (Inl e)
    then show ?thesis using that unf log_neq by simp
  next
    case (Inr fs')
    then have "fs' = (mp, File content) # files s" using open_write_result by blast
    then show ?thesis using that unf Inr downloader_files_neq' by simp
  qed
qed

lemma sidecar_writers_core:
  "(with_suffix image_path ''.txt'' = Inr mp \<longrightarrow>
      mp = butlast image_path @ [name_stem (path_name image_path) @ ''.txt''] \<and>
      (snd (save_image_metadata img image_path s) = s \<longleftrightarrow>
         path_exists (files s) mp \<or>
         (dict_get [] (Title img) = [] \<and> dict_get [] (Caption img) = [] \<and>
          dict_get [] (ImageKeywords img) = [])) \<and>
      (\<not> path_exists (files s) mp \<and>
       \<not> (dict_get [] (Title img) = [] \<and> dict_get [] (Caption img) = [] \<and>
          dict_get [] (ImageKeywords img) = []) \<and>
       is_dir (files s) (path_parent mp) \<longrightarrow>
         save_image_metadata img image_path s =
           (Inr (), s\<lparr>files := (mp, File (labeled_line ''Title'' (dict_get [] (Title img)) @
                                    labeled_line ''Caption'' (dict_get [] (Caption img)) @
                                    labeled_line ''Keywords'' (dict_get [] (ImageKeywords img))))
                              # files s,
                      total_metadata_saved := total_metadata_saved s + 1\<rparr>))) \<and>
   joinpath album_path (album_sidecar_name album) = album_path @ [album_sidecar_name album] \<and>
   (save_album_metadata album album_path s = s \<longleftrightarrow>
      path_exists (files s) (album_path @ [album_sidecar_name album]) \<or>
      (dict_get [] (AlbumName album) = [] \<and> dict_get [] (Description album) = [] \<and>
       dict_get [] (AlbumKeywords album) = [])) \<and>
   (\<not> path_exists (files s) (album_path @ [album_sidecar_name album]) \<and>
    \<not> (dict_get [] (AlbumName album) = [] \<and> dict_get [] (Description album) = [] \<and>
       dict_get [] (AlbumKeywords album) = []) \<and>
    is_dir (files s) (path_parent (album_path @ [album_sidecar_name album])) \<longrightarrow>
      save_album_metadata album album_path s =
        s\<lparr>files := (album_path @ [album_sidecar_name album],
                     File (labeled_line ''Gallery Title'' (dict_get [] (AlbumName album)) @
                           labeled_line ''Gallery Description'' (dict_get [] (Description album)) @
                           labeled_line ''Keywords'' (dict_get [] (AlbumKeywords album))))
                  # files s,
          total_album_metadata_saved := total_album_metadata_saved s + 1\<rparr>)"
proof -
  have img_part: "mp = butlast image_path @ [name_stem (path_name image_path) @ ''.txt''] \<and>
      (snd (save_image_metadata img image_path s) = s \<longleftrightarrow>
         path_exists (files s) mp \<or>
         (dict_get [] (Title img) = [] \<and> dict_get [] (Caption img) = [] \<and>
          dict_get [] (ImageKeywords img) = [])) \<and>
      (\<not> path_exists (files s) mp \<and>
       \<not> (dict_get [] (Title img) = [] \<and> dict_get [] (Caption img) = [] \<and>
          dict_get [] (ImageKeywords img) = []) \<and>
       is_dir (files s) (path_parent mp) \<longrightarrow>
         save_image_metadata img image_path s =
           (Inr (), s\<lparr>files := (mp, File (labeled_line ''Title'' (dict_get [] (Title img)) @
                                    labeled_line ''Caption'' (dict_get [] (Caption img)) @
                                    labeled_line ''Keywords'' (dict_get [] (ImageKeywords img))))
                              # files s,
                      total_metadata_saved := total_metadata_saved s + 1\<rparr>))"
    if w: "with_suffix image_path ''.txt'' = Inr mp"
  proof -
    note c = save_image_metadata_cases[OF w]
    have "snd (save_image_metadata img image_path s) = s \<longleftrightarrow>
         path_exists (files s) mp \<or>
         (dict_get [] (Title img) = [] \<and> dict_get [] (Caption img) = [] \<and>
          dict_get [] (ImageKeywords img) = [])"
      using c(2)[of s img] c(4)[of s img] by (metis snd_conv)
    then show ?thesis using c(1) c(3)[of s img] by blast
  qed
  note a = save_album_metadata_cases
  have alb_iff: "save_album_metadata album album_path s = s \<longleftrightarrow>
      path_exists (files s) (album_path @ [album_sidecar_name album]) \<or>
      (dict_get [] (AlbumName album) = [] \<and> dict_get [] (Description album) = [] \<and>
       dict_get [] (AlbumKeywords album) = [])"
    using a(1)[of s album_path album] a(3)[of s album_path album] by blast
  have jp: "joinpath album_path (album_sidecar_name album) = album_path @ [album_sidecar_name album]"
    unfolding album_sidecar_name_def by (rule album_sidecar_path)
  show ?thesis using img_part alb_iff jp a(2)[of s album_path album] by blast
qed

definition example_titled_image :: image_info where
  \<comment> \<open>an image with a title and keywords, and no caption\<close>
  "example_titled_image =
     (example_image ''K1'' ''a.jpg'')\<lparr>Title := Some ''Sunset'', ImageKeywords := Some ''sea''\<rparr>"

definition example_album_tree :: filesystem where
  \<comment> \<open>the download directory \<open>dl\<close> with the album directory \<open>dl/My Album\<close>\<close>
  "example_album_tree = [([''dl'', ''My Album''], Dir), ([''dl''], Dir)]"

lemma open_write_fails:
  "\<not> is_dir fs (path_parent p) \<Longrightarrow> \<exists>e. open_write fs p c = Inl e"
  by (simp add: open_write_def)

lemma save_image_metadata_warns:
  assumes "with_suffix image_path ''.txt'' = Inr mp" "\<not> path_exists (files s) mp"
    and "\<not> (dict_get [] (Title img) = [] \<and> dict_get [] (Caption img) = [] \<and>
       dict_get [] (ImageKeywords img) = [])"
    and "open_write (files s) mp
              (labeled_line ''Title'' (dict_get [] (Title img)) @
               labeled_line ''Caption'' (dict_get [] (Caption img)) @
               labeled_line ''Keywords'' (dict_get [] (ImageKeywords img))) = Inl e"
  shows "save_image_metadata img image_path s =
             (Inr (), s\<lparr>logged := logged s @
                [''  [Warning: Failed to save metadata for '' @ path_name image_path @ '': '' @
                 exn_str e @ '']'']\<rparr>)"
  using assms by (auto simp: save_image_metadata_def Let_def log_def)

lemma save_album_metadata_warns:
  assumes "\<not> path_exists (files s) (album_path @ [album_sidecar_name album])"
    and "\<not> (dict_get [] (AlbumName album) = [] \<and> dict_get [] (Description album) = [] \<and>
       dict_get [] (AlbumKeywords album) = [])"
    and "open_write (files s) (album_path @ [album_sidecar_name album])
              (labeled_line ''Gallery Title'' (dict_get [] (AlbumName album)) @
               labeled_line ''Gallery Description'' (dict_get [] (Description album)) @
               labeled_line ''Keywords'' (dict_get [] (AlbumKeywords album))) = Inl e"
  shows "save_album_metadata album album_path s =
             s\<lparr>logged := logged s @
                [''  [Warning: Failed to save album metadata: '' @ exn_str e @ '']'']\<rparr>"
proof -
  have jp: "joinpath album_path
      (sanitize_filename (replace_char CHR '' '' CHR ''_'' (dict_get ''album'' (AlbumName album))) @ ''.txt'')
      = album_path @ [album_sidecar_name album]"
    unfolding album_sidecar_name_def by (rule album_sidecar_path)
  show ?thesis
    unfolding save_album_metadata_def Let_def jp using assms by (auto simp: log_def)
qed

text \<open>
  Claim C9, as the code has it. The image sidecar is the image path with its suffix replaced
  by \<open>.txt\<close>; the album sidecar is at the album path joined with the album's name, its
  spaces replaced by underscores, sanitized, plus \<open>.txt\<close>. Each writer leaves the state
  unchanged exactly when its sidecar path already exists or all three of its metadata fields
  are empty. Otherwise, when the parent directory exists, it creates the file with one
  labelled line per non-empty field and counts it; when the file cannot be created (the
  parent directory is missing), it changes nothing but the log, to which it appends one
  warning naming the error, and it raises nothing.
\<close>

theorem sidecar_writers:
  "(with_suffix image_path ''.txt'' = Inr mp \<longrightarrow>
      mp = butlast image_path @ [name_stem (path_name image_path) @ ''.txt''] \<and>
      (snd (save_image_metadata img image_path s) = s \<longleftrightarrow>
         path_exists (files s) mp \<or>
         (dict_get [] (Title img) = [] \<and> dict_get [] (Caption img) = [] \<and>
          dict_get [] (ImageKeywords img) = [])) \<and>
      (\<not> path_exists (files s) mp \<and>
       \<not> (dict_get [] (Title img) = [] \<and> dict_get [] (Caption img) = [] \<and>
          dict_get [] (ImageKeywords img) = []) \<and>
       is_dir (files s) (path_parent mp) \<longrightarrow>
         save_image_metadata img image_path s =
           (Inr (), s\<lparr>files := (mp, File (labeled_line ''Title'' (dict_get [] (Title img)) @
                                    labeled_line ''Caption'' (dict_get [] (Caption img)) @
                                    labeled_line ''Keywords'' (dict_get [] (ImageKeywords img))))
                              # files s,
                      total_metadata_saved := total_metadata_saved s + 1\<rparr>))) \<and>
   joinpath album_path (album_sidecar_name album) = album_path @ [album_sidecar_name album] \<and>
   (save_album_metadata album album_path s = s \<longleftrightarrow>
      path_exists (files s) (album_path @ [album_sidecar_name album]) \<or>
      (dict_get [] (AlbumName album) = [] \<and> dict_get [] (Description album) = [] \<and>
       dict_get [] (AlbumKeywords album) = [])) \<and>
   (\<not> path_exists (files s) (album_path @ [album_sidecar_name album]) \<and>
    \<not> (dict_get [] (AlbumName album) = [] \<and> dict_get [] (Description album) = [] \<and>
       dict_get [] (AlbumKeywords album) = []) \<and>
    is_dir (files s) (path_parent (album_path @ [album_sidecar_name album])) \<longrightarrow>
      save_album_metadata album album_path s =
        s\<lparr>files := (album_path @ [album_sidecar_name album],
                     File (labeled_line ''Gallery Title'' (dict_get [] (AlbumName album)) @
                           labeled_line ''Gallery Description'' (dict_get [] (Description album)) @
                           labeled_line ''Keywords'' (dict_get [] (AlbumKeywords album))))
                  # files s,
          total_album_metadata_saved := total_album_metadata_saved s + 1\<rparr>) \<and>
   (with_suffix image_path ''.txt'' = Inr mp \<and> \<not> path_exists (files s) mp \<and>
    \<not> (dict_get [] (Title img) = [] \<and> dict_get [] (Caption img) = [] \<and>
       dict_get [] (ImageKeywords img) = []) \<and>
    \<not> is_dir (files s) (path_parent mp) \<longrightarrow>
      (\<exists>e. open_write (files s) mp
              (labeled_line ''Title'' (dict_get [] (Title img)) @
               labeled_line ''Caption'' (dict_get [] (Caption img)) @
               labeled_line ''Keywords'' (dict_get [] (ImageKeywords img))) = Inl e \<and>
           save_image_metadata img image_path s =
             (Inr (), s\<lparr>logged := logged s @
                [''  [Warning: Failed to save metadata for '' @ path_name image_path @ '': '' @
                 exn_str e @ '']'']\<rparr>))) \<and>
   (\<not> path_exists (files s) (album_path @ [album_sidecar_name album]) \<and>
    \<not> (dict_get [] (AlbumName album) = [] \<and> dict_get [] (Description album) = [] \<and>
       dict_get [] (AlbumKeywords album) = []) \<and>
    \<not> is_dir (files s) (path_parent (album_path @ [album_sidecar_name album])) \<longrightarrow>
      (\<exists>e. open_write (files s) (album_path @ [album_sidecar_name album])
              (labeled_line ''Gallery Title'' (dict_get [] (AlbumName album)) @
               labeled_line ''Gallery Description'' (dict_get [] (Description album)) @
               labeled_line ''Keywords'' (dict_get [] (AlbumKeywords album))) = Inl e \<and>
           save_album_metadata album album_path s =
             s\<lparr>logged := logged s @
                [''  [Warning: Failed to save album metadata: '' @ exn_str e @ '']'']\<rparr>))"
proof -
  have img_warn: "\<exists>e. open_write (files s) mp
              (labeled_line ''Title'' (dict_get [] (Title img)) @
               labeled_line ''Caption'' (dict_get [] (Caption img)) @
               labeled_line ''Keywords'' (dict_get [] (ImageKeywords img))) = Inl e \<and>
           save_image_metadata img image_path s =
             (Inr (), s\<lparr>logged := logged s @
                [''  [Warning: Failed to save metadata for '' @ path_name image_path @ '': '' @
                 exn_str e @ '']'']\<rparr>)"
    if h: "with_suffix image_path ''.txt'' = Inr mp" "\<not> path_exists (files s) mp"
      "\<not> (dict_get [] (Title img) = [] \<and> dict_get [] (Caption img) = [] \<and>
         dict_get [] (ImageKeywords img) = [])"
      "\<not> is_dir (files s) (path_parent mp)"
  proof -
    obtain e where e: "open_write (files s) mp
              (labeled_line ''Title'' (dict_get [] (Title img)) @
               labeled_line ''Caption'' (dict_get [] (Caption img)) @
               labeled_line ''Keywords'' (dict_get [] (ImageKeywords img))) = Inl e"
      using open_write_fails[OF h(4)] by blast
    show ?thesis using e save_image_metadata_warns[OF h(1,2,3) e] by blast
  qed
  have alb_warn: "\<exists>e. open_write (files s) (album_path @ [album_sidecar_name album])
              (labeled_line ''Gallery Title'' (dict_get [] (AlbumName album)) @
               labeled_line ''Gallery Description'' (dict_get [] (Description album)) @
               labeled_line ''Keywords'' (dict_get [] (AlbumKeywords album))) = Inl e \<and>
           save_album_metadata album album_path s =
             s\<lparr>logged := logged s @
                [''  [Warning: Failed to save album metadata: '' @ exn_str e @ '']'']\<rparr>"
    if h: "\<not> path_exists (files s) (album_path @ [album_sidecar_name album])"
      "\<not> (dict_get [] (AlbumName album) = [] \<and> dict_get [] (Description album) = [] \<and>
         dict_get [] (AlbumKeywords album) = [])"
      "\<not> is_dir (files s) (path_parent (album_path @ [album_sidecar_name album]))"
  proof -
    obtain e where e: "open_write (files s) (album_path @ [album_sidecar_name album])
              (labeled_line ''Gallery Title'' (dict_get [] (AlbumName album)) @
               labeled_line ''Gallery Description'' (dict_get [] (Description album)) @
               labeled_line ''Keywords'' (dict_get [] (AlbumKeywords album))) = Inl e"
      using open_write_fails[OF h(3)] by blast
    show ?thesis using e save_album_metadata_warns[OF h(1,2) e] by blast
  qed
  show ?thesis
    using sidecar_writers_core[of image_path mp img s album_path album] img_warn alb_warn
    by blast
qed

theorem sidecar_writers_witness:
  "with_suffix [''dl'', ''Album'', ''a.jpg''] ''.txt'' = Inr [''dl'', ''Album'', ''a.txt''] \<and>
   \<not> path_exists (files (init_downloader [''dl''] example_tree)) [''dl'', ''Album'', ''a.txt''] \<and>
   is_dir (files (init_downloader [''dl''] example_tree)) (path_parent [''dl'', ''Album'', ''a.txt'']) \<and>
   save_image_metadata example_titled_image [''dl'', ''Album'', ''a.jpg'']
       (init_downloader [''dl''] example_tree) =
     (Inr (), (init_downloader [''dl''] example_tree)
        \<lparr>files := ([''dl'', ''Album'', ''a.txt''],
                    File (''Title: Sunset'' @ newline @ ''Keywords: sea'' @ newline))
                  # example_tree,
         total_metadata_saved := 1\<rparr>) \<and>
   save_image_metadata (example_image ''K1'' ''a.jpg'') [''dl'', ''Album'', ''a.jpg'']
       (init_downloader [''dl''] example_tree) =
     (Inr (), init_downloader [''dl''] example_tree) \<and>
   save_album_metadata (example_album ''My Album'') [''dl'', ''My Album'']
       (init_downloader [''dl''] example_album_tree) =
     (init_downloader [''dl''] example_album_tree)
        \<lparr>files := ([''dl'', ''My Album'', ''My_Album.txt''],
                    File (''Gallery Title: My Album'' @ newline)) # example_album_tree,
         total_album_metadata_saved := 1\<rparr> \<and>
   with_suffix [''dl'', ''Missing'', ''a.jpg''] ''.txt'' = Inr [''dl'', ''Missing'', ''a.txt''] \<and>
   \<not> is_dir (files (init_downloader [''dl''] example_tree))
       (path_parent [''dl'', ''Missing'', ''a.txt'']) \<and>
   save_image_metadata example_titled_image [''dl'', ''Missing'', ''a.jpg'']
       (init_downloader [''dl''] example_tree) =
     (Inr (), (init_downloader [''dl''] example_tree)
        \<lparr>logged := [''  [Warning: Failed to save metadata for a.jpg: dl/Missing/a.txt]'']\<rparr>) \<and>
   save_album_metadata (example_album ''My Album'') [''dl'', ''Missing'']
       (init_downloader [''dl''] example_tree) =
     (init_downloader [''dl''] example_tree)
        \<lparr>logged := [''  [Warning: Failed to save album metadata: dl/Missing/My_Album.txt]'']\<rparr>"
proof -
  let ?s = "init_downloader [''dl''] example_tree"
  let ?t = "init_downloader [''dl''] example_album_tree"
  let ?p = "[''dl'', ''Album'', ''a.jpg'']"
  let ?mp = "[''dl'', ''Album'', ''a.txt'']"
  let ?m = "[''dl'', ''Missing'', ''a.jpg'']"
  let ?mm = "[''dl'', ''Missing'', ''a.txt'']"
  have 1: "with_suffix ?p ''.txt'' = Inr ?mp" by code_simp
  have 2: "\<not> path_exists (files ?s) ?mp" by code_simp
  have 3: "is_dir (files ?s) (path_parent ?mp)" by code_simp
  have nb: "\<not> (dict_get [] (Title example_titled_image) = [] \<and>
              dict_get [] (Caption example_titled_image) = [] \<and>
              dict_get [] (ImageKeywords example_titled_image) = [])"
    by code_simp
  have bl: "path_exists (files ?s) ?mp \<or>
            (dict_get [] (Title (example_image ''K1'' ''a.jpg'')) = [] \<and>
             dict_get [] (Caption (example_image ''K1'' ''a.jpg'')) = [] \<and>
             dict_get [] (ImageKeywords (example_image ''K1'' ''a.jpg'')) = [])"
    by code_simp
  note w = sidecar_writers[where image_path = ?p and mp = ?mp and img = example_titled_image
      and s = ?s and album_path = "[''dl'', ''Missing'']" and album = "example_album ''My Album''"]
  note w_img = w[THEN conjunct1, THEN mp, OF 1, THEN conjunct2, THEN conjunct2, THEN mp,
      OF conjI[OF 2 conjI[OF nb 3]]]
  have 4: "save_image_metadata example_titled_image ?p ?s =
     (Inr (), ?s\<lparr>files := (?mp, File (''Title: Sunset'' @ newline @ ''Keywords: sea'' @ newline))
                  # example_tree,
         total_metadata_saved := 1\<rparr>)"
    unfolding w_img by code_simp
  note b = sidecar_writers[where image_path = ?p and mp = ?mp and img = "example_image ''K1'' ''a.jpg''"
      and s = ?s and album_path = "[''dl'', ''Missing'']" and album = "example_album ''My Album''"]
  note b_iff = b[THEN conjunct1, THEN mp, OF 1, THEN conjunct2, THEN conjunct1]
  have "snd (save_image_metadata (example_image ''K1'' ''a.jpg'') ?p ?s) = ?s"
    using b_iff bl by blast
  moreover have "fst (save_image_metadata (example_image ''K1'' ''a.jpg'') ?p ?s) = Inr ()"
    by code_simp
  ultimately have 5: "save_image_metadata (example_image ''K1'' ''a.jpg'') ?p ?s = (Inr (), ?s)"
    by (metis prod.collapse)
  have a1: "\<not> path_exists (files ?t) ([''dl'', ''My Album''] @ [album_sidecar_name (example_album ''My Album'')])"
    by code_simp
  have a2: "\<not> (dict_get [] (AlbumName (example_album ''My Album'')) = [] \<and>
              dict_get [] (Description (example_album ''My Album'')) = [] \<and>
              dict_get [] (AlbumKeywords (example_album ''My Album'')) = [])"
    by code_simp
  have a3: "is_dir (files ?t) (path_parent ([''dl'', ''My Album''] @
              [album_sidecar_name (example_album ''My Album'')]))"
    by code_simp
  note al = sidecar_writers[where image_path = ?p and mp = ?mp and img = example_titled_image
      and s = ?t and album_path = "[''dl'', ''My Album'']" and album = "example_album ''My Album''",
      THEN conjunct2, THEN conjunct2, THEN conjunct2, THEN conjunct1, THEN mp,
      OF conjI[OF a1 conjI[OF a2 a3]]]
  have 6: "save_album_metadata (example_album ''My Album'') [''dl'', ''My Album''] ?t =
     ?t\<lparr>files := ([''dl'', ''My Album'', ''My_Album.txt''],
                    File (''Gallery Title: My Album'' @ newline)) # example_album_tree,
         total_album_metadata_saved := 1\<rparr>"
    unfolding al by code_simp
  have m1: "with_suffix ?m ''.txt'' = Inr ?mm" by code_simp
  have m2: "\<not> path_exists (files ?s) ?mm" by code_simp
  have m3: "\<not> is_dir (files ?s) (path_parent ?mm)" by code_simp
  note mw = sidecar_writers[where image_path = ?m and mp = ?mm and img = example_titled_image
      and s = ?s and album_path = "[''dl'', ''Missing'']" and album = "example_album ''My Album''"]
  note mw_img = mw[THEN conjunct2, THEN conjunct2, THEN conjunct2, THEN conjunct2, THEN conjunct1,
      THEN mp, OF conjI[OF m1 conjI[OF m2 conjI[OF nb m3]]]]
  have oe: "open_write (files ?s) ?mm
              (labeled_line ''Title'' (dict_get [] (Title example_titled_image)) @
               labeled_line ''Caption'' (dict_get [] (Caption example_titled_image)) @
               labeled_line ''Keywords'' (dict_get [] (ImageKeywords example_titled_image))) =
            Inl (Error ''FileNotFoundError'' ''dl/Missing/a.txt'')"
    by code_simp
  have 7: "save_image_metadata example_titled_image ?m ?s =
     (Inr (), ?s\<lparr>logged := [''  [Warning: Failed to save metadata for a.jpg: dl/Missing/a.txt]'']\<rparr>)"
  proof -
    obtain e where e: "open_write (files ?s) ?mm
              (labeled_line ''Title'' (dict_get [] (Title example_titled_image)) @
               labeled_line ''Caption'' (dict_get [] (Caption example_titled_image)) @
               labeled_line ''Keywords'' (dict_get [] (ImageKeywords example_titled_image))) = Inl e"
      and r: "save_image_metadata example_titled_image ?m ?s =
             (Inr (), ?s\<lparr>logged := logged ?s @
                [''  [Warning: Failed to save metadata for '' @ path_name ?m @ '': '' @
                 exn_str e @ '']'']\<rparr>)"
      using mw_img by blast
    have ee: "e = Error ''FileNotFoundError'' ''dl/Missing/a.txt''" using e oe by simp
    show ?thesis unfolding r ee by code_simp
  qed
  have n1: "\<not> path_exists (files ?s) ([''dl'', ''Missing''] @ [album_sidecar_name (example_album ''My Album'')])"
    by code_simp
  have n3: "\<not> is_dir (files ?s) (path_parent ([''dl'', ''Missing''] @
              [album_sidecar_name (example_album ''My Album'')]))"
    by code_simp
  note mw_alb = mw[THEN conjunct2, THEN conjunct2, THEN conjunct2, THEN conjunct2, THEN conjunct2,
      THEN mp, OF conjI[OF n1 conjI[OF a2 n3]]]
  have oa: "open_write (files ?s) ([''dl'', ''Missing''] @ [album_sidecar_name (example_album ''My Album'')])
              (labeled_line ''Gallery Title'' (dict_get [] (AlbumName (example_album ''My Album''))) @
               labeled_line ''Gallery Description'' (dict_get [] (Description (example_album ''My Album''))) @
               labeled_line ''Keywords'' (dict_get [] (AlbumKeywords (example_album ''My Album'')))) =
            Inl (Error ''FileNotFoundError'' ''dl/Missing/My_Album.txt'')"
    by code_simp
  have 8: "save_album_metadata (example_album ''My Album'') [''dl'', ''Missing''] ?s =
     ?s\<lparr>logged := [''  [Warning: Failed to save album metadata: dl/Missing/My_Album.txt]'']\<rparr>"
  proof -
    obtain e where e: "open_write (files ?s) ([''dl'', ''Missing''] @ [album_sidecar_name (example_album ''My Album'')])
              (labeled_line ''Gallery Title'' (dict_get [] (AlbumName (example_album ''My Album''))) @
               labeled_line ''Gallery Description'' (dict_get [] (Description (example_album ''My Album''))) @
               labeled_line ''Keywords'' (dict_get [] (AlbumKeywords (example_album ''My Album'')))) = Inl e"
      and r: "save_album_metadata (example_album ''My Album'') [''dl'', ''Missing''] ?s =
             ?s\<lparr>logged := logged ?s @
                [''  [Warning: Failed to save album metadata: '' @ exn_str e @ '']'']\<rparr>"
      using mw_alb by blast
    have ee: "e = Error ''FileNotFoundError'' ''dl/Missing/My_Album.txt''" using e oa by simp
    show ?thesis unfolding r ee by code_simp
  qed
  show ?thesis using 1 2 3 4 5 6 m1 m3 7 8 by simp
qed

text \<open>
  Claim C9 as stated fails for the album path: for the album \<open>My Album\<close> the sanitized
  album name plus \<open>.txt\<close> is \<open>My Album.txt\<close>, and the writer creates
  \<open>My_Album.txt\<close> instead.
\<close>

theorem album_sidecar_name_differs:
  "sanitize_filename ''My Album'' @ ''.txt'' = ''My Album.txt'' \<and>
   map_of (files (save_album_metadata (example_album ''My Album'') [''dl'', ''My Album'']
                    (init_downloader [''dl''] example_album_tree)))
     [''dl'', ''My Album'', ''My Album.txt''] = None \<and>
   map_of (files (save_album_metadata (example_album ''My Album'') [''dl'', ''My Album'']
                    (init_downloader [''dl''] example_album_tree)))
     [''dl'', ''My Album'', ''My_Album.txt''] = Some (File (''Gallery Title: My Album'' @ newline))"
  by code_simp

end
